theory Spec2Isabelle
  imports
    Main
    "HOL-Library.Word"
    "HOL-Library.AList"
    "HOL-Library.Char_ord"
    "HOL-Library.List_Lexorder"
    "HOL-Library.Product_Lexorder"
    "HOL-Library.Signed_Division"
begin

unbundle bit_operations_syntax

section \<open>Data model\<close>

text \<open>
  The Thrift scalar types \<open>i32\<close> and \<open>i64\<close> (C++ \<open>int32_t\<close>, \<open>int64_t\<close>) are words of
  that width, read as two's complement by \<open>sint\<close> and compared with the signed
  relations \<open><s\<close> and \<open>\<le>s\<close>.  A \<open>std::string\<close> is a \<open>string\<close>; its comparison
  operators are the lexicographic order on byte lists (theories \<open>Char_ord\<close> and
  \<open>List_Lexorder\<close>).  A \<open>std::unordered_map\<close> that the code iterates over is an
  association list with distinct keys: the list order stands for the (unspecified)
  iteration order, so every theorem below holds for each possible order.
\<close>

type_synonym int32 = "32 word"
type_synonym int64 = "64 word"

definition INT32_MIN :: int32 where
  "INT32_MIN = word_of_int (- (2 ^ 31))"

subsection \<open>Routes and prefixes (openr/common/Util.h)\<close>

text \<open>The codes of \<open>thrift::MplsActionCode\<close> (Network.thrift is not among the sources):
  the specification names PHP and SWAP, and the pushing of label stacks; NetlinkRoute.h
  tells push, swap or PHP, and pop next-hops apart.  The fields of an action and of a
  next-hop are the parameters of \<open>createMplsAction\<close> and \<open>createNextHop\<close>.\<close>

datatype MplsActionCode = PUSH | SWAP | PHP | POP_AND_LOOKUP

record MplsAction =
  action :: MplsActionCode
  swapLabel :: "int32 option"
  pushLabels :: "int32 list option"

record NextHopThrift =
  address :: string
  ifName :: "string option"
  metric :: int32
  mplsAction :: "MplsAction option"
  area :: "string option"
  neighborNodeName :: "string option"

text \<open>The metrics that \<open>selectBestPrefixMetrics\<close> reads into its tuple of \<open>int32_t\<close>.\<close>

record PrefixMetrics =
  path_preference :: int32
  source_preference :: int32
  distance :: int32

datatype PrefixType = LOOPBACK | BGP | CONFIG

datatype PrefixForwardingType = IP | SR_MPLS

datatype PrefixForwardingAlgorithm = SP_ECMP | KSP2_ED_ECMP

record PrefixEntry =
  prefix :: string
  prefixType :: PrefixType
  forwardingType :: PrefixForwardingType
  forwardingAlgorithm :: PrefixForwardingAlgorithm
  tags :: "string set"
  metrics :: PrefixMetrics

datatype PrefixUpdateCommand =
  ADD_PREFIXES | WITHDRAW_PREFIXES | WITHDRAW_PREFIXES_BY_TYPE | SYNC_PREFIXES_BY_TYPE

record PrefixUpdateRequest =
  cmd :: PrefixUpdateCommand
  reqType :: PrefixType
  prefixes :: "PrefixEntry list"
  dstAreas :: "string set"

subsection \<open>Link monitor (openr/link-monitor/LinkMonitor.cpp)\<close>

text \<open>
  The Thrift structures and the classes of LinkMonitor.h are not among the sources;
  their fields are taken from the places where LinkMonitor.cpp reads and writes them and
  from the \<open>create...\<close> declarations of Util.h.  Addresses (\<open>thrift::BinaryAddress\<close>)
  are kept in their printed form.  Where two structures have a field of the same name,
  the field is written with its record name, as in \<open>Adjacency.metric\<close>.
\<close>

record PeerSpec =
  cmdUrl :: string
  peerAddr :: string
  ctrlPort :: int32

record KvStorePeerValue =
  tPeerSpec :: PeerSpec
  initialSynced :: bool

record Adjacency =
  otherNodeName :: string
  ifName :: string
  nextHopV6 :: string
  nextHopV4 :: string
  metric :: int32
  adjLabel :: int32
  isOverloaded :: bool
  rtt :: int32
  timestamp :: int64
  weight :: int64
  otherIfName :: string

text \<open>\<open>AdjacencyKey\<close> is \<open>std::pair<std::string, std::string>\<close>: remote node name, then
  local interface name.\<close>

type_synonym AdjacencyKey = "string \<times> string"

record AdjacencyValue =
  area :: string
  peerSpec :: PeerSpec
  adjacency :: Adjacency
  isRestarting :: bool

text \<open>\<open>thrift::AdjKey\<close> with its fields \<open>nodeName\<close> and \<open>ifName\<close>, in this order.\<close>

type_synonym AdjKey = "string \<times> string"

record LinkMonitorState =
  nodeLabel :: int32
  isOverloaded :: bool
  overloadedLinks :: "string set"
  linkMetricOverrides :: "string \<rightharpoonup> int32"
  adjMetricOverrides :: "AdjKey \<rightharpoonup> int32"

text \<open>A performance event without its clock reading: node name and description.\<close>

type_synonym PerfEvents = "(string \<times> string) list"

record AdjacencyDatabase =
  thisNodeName :: string
  isOverloaded :: bool
  adjacencies :: "Adjacency list"
  nodeLabel :: int32
  area :: string
  perfEvents :: "PerfEvents option"

datatype SparkNeighborEventType =
  NEIGHBOR_UP | NEIGHBOR_DOWN | NEIGHBOR_RESTARTED | NEIGHBOR_RTT_CHANGE | NEIGHBOR_RESTARTING

record SparkNeighbor =
  nodeName :: string
  transportAddressV4 :: string
  transportAddressV6 :: string
  kvStoreCmdPort :: int64
  openrCtrlThriftPort :: int64
  label :: int32
  rttUs :: int64
  remoteIfName :: string
  localIfName :: string
  area :: string

record SparkNeighborEvent =
  eventType :: SparkNeighborEventType
  info :: SparkNeighbor

record PeerUpdateRequest =
  area :: string
  peerAddParams :: "(string \<times> PeerSpec) list option"
  peerDelParams :: "string list option"

record InterfaceInfo =
  isUp :: bool
  ifIndex :: int
  networks :: "string list"

record InterfaceDatabase =
  thisNodeName :: string
  interfaces :: "(string \<times> InterfaceInfo) list"

text \<open>\<open>InterfaceEntry\<close> (InterfaceEntry.h, not among the sources) is read here only
  through its getters; an entry is the record of what they return at the moment of the
  call.\<close>

record InterfaceEntry =
  getIfName :: string
  getWeight :: int64
  isActive :: bool
  getInterfaceInfo :: InterfaceInfo
  getGlobalUnicastNetworks :: "bool \<Rightarrow> PrefixEntry list"
  getBackoffDuration :: int

text \<open>\<open>AreaConfiguration\<close> (Config.h, not among the sources): the two interface-name
  matchers the link monitor calls.\<close>

record AreaConfiguration =
  shouldDiscoverOnIface :: "string \<Rightarrow> bool"
  shouldRedistributeIface :: "string \<Rightarrow> bool"

text \<open>
  What the link monitor sends to its collaborators, in the order it sends it:
  \<open>kvStoreClient_->persistKey\<close> (area, key, value; the value is the database before
  serialisation), \<open>configStore_->storeThriftObj\<close> (key, object), and the pushes into
  the prefix, peer and interface queues.  A command hands a \<open>folly::SemiFuture\<close> to its
  caller and completes it through the promise \<open>p\<close>: \<open>p.setValue()\<close> answers with a
  value, \<open>p.setException(...)\<close> would answer with an error.  Log lines and counters are
  left out.
\<close>

datatype Effect =
    PersistKey string string AdjacencyDatabase
  | StoreThriftObj string LinkMonitorState
  | PushPrefixUpdate PrefixUpdateRequest
  | PushPeerUpdate PeerUpdateRequest
  | PushInterfaceDb InterfaceDatabase
  | SetValue
  | SetException string

text \<open>A failed \<open>CHECK\<close> aborts the process; an uncaught \<open>std::out_of_range\<close> of
  \<open>unordered_map::at\<close> ends it as well.\<close>

datatype Failure = CheckFailed | OutOfRange

text \<open>The values the constructor copies from the configuration into \<open>const\<close> members,
  the test switch \<open>mockMode_\<close>, and the constants of Constants.h (not among the sources)
  that the modelled code reads.\<close>

record Config =
  nodeId :: string
  enablePerfMeasurement :: bool
  enableV4 :: bool
  enableSegmentRouting :: bool
  prefixForwardingType :: PrefixForwardingType
  prefixForwardingAlgorithm :: PrefixForwardingAlgorithm
  useRttMetric :: bool
  linkflapMaxBackoff :: int
  areas :: "(string \<times> AreaConfiguration) list"
  mockMode :: bool
  kDefaultPathPreference :: int32
  kDefaultSourcePreference :: int32

text \<open>
  The mutable members of class \<open>LinkMonitor\<close> (a record field cannot end in an
  underscore, so \<open>state_\<close> is \<open>state\<close>), and the trace of effects.
  \<open>adjHoldTimerScheduled\<close> is \<open>adjHoldTimer_->isScheduled()\<close>,
  \<open>advertiseAdjacenciesThrottledActive\<close> is \<open>advertiseAdjacenciesThrottled_->isActive()\<close>,
  and likewise for the interface throttle and timer.  \<open>peers_[area]\<close> of an area never
  touched is the empty map, so \<open>peers\<close> is a function of the area.
\<close>

record LinkMonitor =
  config :: Config
  state :: LinkMonitorState
  adjacencies :: "(AdjacencyKey \<times> AdjacencyValue) list"
  interfaces :: "(string \<times> InterfaceEntry) list"
  peers :: "string \<Rightarrow> (string \<times> KvStorePeerValue) list"
  adjHoldTimerScheduled :: bool
  advertiseAdjacenciesThrottledActive :: bool
  advertiseIfaceAddrThrottledActive :: bool
  advertiseIfaceAddrTimerScheduled :: bool
  effects :: "Effect list"

section \<open>Link monitor operations\<close>

subsection \<open>Metric of a measured round-trip time\<close>

text \<open>\<open>std::max((int)(rttUs / 100), (int)1)\<close>: the 64-bit quotient (C++ division
  truncates towards zero) is narrowed to 32 bits by the cast, which keeps its low 32
  bits; \<open>std::max(a, b)\<close> is \<open>b\<close> when \<open>a < b\<close> and \<open>a\<close> otherwise.\<close>

definition getRttMetric :: "int64 \<Rightarrow> int32" where
  "getRttMetric r =
     (let q64 = (word_of_int (sint r sdiv 100) :: int64);
          q = (ucast q64 :: int32)
      in if q <s 1 then 1 else q)"

subsection \<open>Peers from adjacencies\<close>

text \<open>\<open>unordered_map::emplace\<close> inserts only when the key is absent.\<close>

definition emplace :: "'k \<Rightarrow> 'v \<Rightarrow> ('k \<times> 'v) list \<Rightarrow> ('k \<times> 'v) list" where
  "emplace k v m = (case map_of m k of None \<Rightarrow> m @ [(k, v)] | Some _ \<Rightarrow> m)"

text \<open>The body of the first loop of \<open>getPeersFromAdjacencies\<close>, on the map
  \<open>neighborToIface\<close>.\<close>

definition neighborToIfaceStep ::
  "string \<Rightarrow> (string \<times> string) list \<Rightarrow> AdjacencyKey \<times> AdjacencyValue \<Rightarrow> (string \<times> string) list" where
  "neighborToIfaceStep areaId neighborToIface kv =
     (case kv of (adjKey, adjValue) \<Rightarrow>
        if AdjacencyValue.area adjValue \<noteq> areaId \<or> isRestarting adjValue then neighborToIface
        else
          (case map_of neighborToIface (fst adjKey) of
             None \<Rightarrow> emplace (fst adjKey) (snd adjKey) neighborToIface
           | Some cur \<Rightarrow>
               if cur > snd adjKey then AList.update (fst adjKey) (snd adjKey) neighborToIface
               else neighborToIface))"

text \<open>The second loop: \<open>peers.emplace(kv.first, adjacencies.at(kv).peerSpec)\<close>; \<open>at\<close>
  throws when the key is missing.\<close>

fun collectPeers ::
  "(AdjacencyKey \<times> AdjacencyValue) list \<Rightarrow> (string \<times> string) list
     \<Rightarrow> (string \<times> PeerSpec) list \<Rightarrow> Failure + (string \<times> PeerSpec) list" where
  "collectPeers adjs [] acc = Inr acc"
| "collectPeers adjs (kv # rest) acc =
     (case map_of adjs kv of
        None \<Rightarrow> Inl OutOfRange
      | Some adjValue \<Rightarrow> collectPeers adjs rest (emplace (fst kv) (peerSpec adjValue) acc))"

definition getPeersFromAdjacencies ::
  "(AdjacencyKey \<times> AdjacencyValue) list \<Rightarrow> string \<Rightarrow> Failure + (string \<times> PeerSpec) list" where
  "getPeersFromAdjacencies adjs areaId =
     collectPeers adjs (foldl (neighborToIfaceStep areaId) [] adjs) []"

text \<open>The adjacencies of a node that the first loop does not skip.\<close>

definition eligible :: "string \<Rightarrow> string \<Rightarrow> AdjacencyKey \<times> AdjacencyValue \<Rightarrow> bool" where
  "eligible areaId node kv =
     (fst (fst kv) = node \<and> AdjacencyValue.area (snd kv) = areaId \<and> \<not> isRestarting (snd kv))"

text \<open>\<open>iface\<close> is the smallest local interface name among the adjacencies of \<open>node\<close>
  that the first loop does not skip.\<close>

definition minIface ::
  "string \<Rightarrow> (AdjacencyKey \<times> AdjacencyValue) list \<Rightarrow> string \<Rightarrow> string \<Rightarrow> bool" where
  "minIface areaId adjs node iface =
     ((\<exists>kv \<in> set adjs. eligible areaId node kv \<and> snd (fst kv) = iface)
      \<and> (\<forall>kv \<in> set adjs. eligible areaId node kv \<longrightarrow> iface \<le> snd (fst kv)))"


subsection \<open>Advertising KvStore peers\<close>

text \<open>The loop of \<open>advertiseKvStorePeers\<close> over \<open>newPeers\<close>; its state is
  \<open>peers_[area]\<close> and \<open>toAddPeers\<close>.\<close>

definition addPeerStep ::
  "(string \<times> KvStorePeerValue) list
     \<Rightarrow> (string \<times> KvStorePeerValue) list \<times> (string \<times> PeerSpec) list
     \<Rightarrow> string \<times> PeerSpec
     \<Rightarrow> (string \<times> KvStorePeerValue) list \<times> (string \<times> PeerSpec) list" where
  "addPeerStep oldPeers st np =
     (case st of (areaPeers, toAddPeers) \<Rightarrow> case np of (node, spec) \<Rightarrow>
        let oldPeerVal = map_of oldPeers node;
            synced = (case oldPeerVal of None \<Rightarrow> False | Some old \<Rightarrow> initialSynced old);
            areaPeers' = emplace node \<lparr>tPeerSpec = spec, initialSynced = synced\<rparr> areaPeers
        in if (case oldPeerVal of None \<Rightarrow> False | Some old \<Rightarrow> tPeerSpec old = spec)
           then (areaPeers', toAddPeers)
           else (areaPeers', emplace node spec toAddPeers))"

text \<open>The loop over \<open>upPeers\<close>, with its \<open>CHECK\<close>.\<close>

fun upPeersLoop ::
  "(string \<times> KvStorePeerValue) list \<Rightarrow> (string \<times> PeerSpec) list
     \<Rightarrow> (string \<times> PeerSpec) list \<Rightarrow> Failure + (string \<times> PeerSpec) list" where
  "upPeersLoop areaPeers [] toAddPeers = Inr toAddPeers"
| "upPeersLoop areaPeers ((name, spec) # rest) toAddPeers =
     (case map_of areaPeers name of
        None \<Rightarrow> Inl CheckFailed
      | Some cur \<Rightarrow>
          if map_of toAddPeers name \<noteq> None then upPeersLoop areaPeers rest toAddPeers
          else if spec \<noteq> tPeerSpec cur then upPeersLoop areaPeers rest toAddPeers
          else upPeersLoop areaPeers rest (emplace name spec toAddPeers))"

text \<open>\<open>advertiseKvStorePeers(area, upPeers)\<close>.  \<open>std::move(peers_[area])\<close> leaves the
  entry of the area empty; the loop over \<open>newPeers\<close> fills it again.\<close>

definition advertiseKvStorePeers ::
  "string \<Rightarrow> (string \<times> PeerSpec) list \<Rightarrow> LinkMonitor \<Rightarrow> Failure + LinkMonitor" where
  "advertiseKvStorePeers areaId upPeers lm =
     (let oldPeers = peers lm areaId in
      case getPeersFromAdjacencies (adjacencies lm) areaId of
        Inl f \<Rightarrow> Inl f
      | Inr newPeers \<Rightarrow>
          let toDelPeers = map fst (filter (\<lambda>op. map_of newPeers (fst op) = None) oldPeers);
              delParams = (if length toDelPeers > 0 then Some toDelPeers else None);
              (areaPeers, toAdd0) = foldl (addPeerStep oldPeers) ([], []) newPeers
          in case upPeersLoop areaPeers upPeers toAdd0 of
               Inl f \<Rightarrow> Inl f
             | Inr toAddPeers \<Rightarrow>
                 let addParams = (if length toAddPeers > 0 then Some toAddPeers else None);
                     req = \<lparr>PeerUpdateRequest.area = areaId, peerAddParams = addParams,
                            peerDelParams = delParams\<rparr>
                 in Inr (lm\<lparr>peers := (peers lm)(areaId := areaPeers),
                            effects := effects lm @
                              (if delParams \<noteq> None \<or> addParams \<noteq> None
                               then [PushPeerUpdate req] else [])\<rparr>))"

subsection \<open>Building and advertising the adjacency database\<close>

definition kConfigKey :: string where
  "kConfigKey = ''link-monitor-config''"

text \<open>Modelled from the spec: \<open>Constants::kAdjDbMarker\<close> (Constants.h is missing); the
  adjacency database of a node is stored under the key \<open>adj:<node>\<close>.\<close>

definition kAdjDbMarker :: string where
  "kAdjDbMarker = ''adj:''"

text \<open>Modelled from the spec: \<open>addPerfEvent\<close> (Util.cpp is missing) appends an event
  with the node name and the description it is given; the clock reading is left out.\<close>

definition addPerfEvent :: "PerfEvents \<Rightarrow> string \<Rightarrow> string \<Rightarrow> PerfEvents" where
  "addPerfEvent evs node descr = evs @ [(node, descr)]"

text \<open>\<open>folly::get_default(map, key, dflt)\<close>.\<close>

definition get_default :: "('k \<rightharpoonup> 'v) \<Rightarrow> 'k \<Rightarrow> 'v \<Rightarrow> 'v" where
  "get_default m k dflt = (case m k of None \<Rightarrow> dflt | Some v \<Rightarrow> v)"

text \<open>The body of the loop of \<open>buildAdjacencyDatabase\<close>, applied to the copy of one
  stored adjacency: the link overload bit, then the link metric override, then the
  adjacency metric override.\<close>

definition overrideAdjacency :: "LinkMonitorState \<Rightarrow> Adjacency \<Rightarrow> Adjacency" where
  "overrideAdjacency st adj0 =
     (let adj1 = adj0\<lparr>Adjacency.isOverloaded := Adjacency.ifName adj0 \<in> overloadedLinks st\<rparr>;
          adj2 = adj1\<lparr>Adjacency.metric :=
                   get_default (linkMetricOverrides st) (Adjacency.ifName adj1)
                     (Adjacency.metric adj1)\<rparr>;
          adjKey = (otherNodeName adj2, Adjacency.ifName adj2)
      in adj2\<lparr>Adjacency.metric :=
                get_default (adjMetricOverrides st) adjKey (Adjacency.metric adj2)\<rparr>)"

definition buildAdjacencyDatabase :: "LinkMonitor \<Rightarrow> string \<Rightarrow> AdjacencyDatabase" where
  "buildAdjacencyDatabase lm areaId =
     \<lparr>AdjacencyDatabase.thisNodeName = nodeId (config lm),
      AdjacencyDatabase.isOverloaded = LinkMonitorState.isOverloaded (state lm),
      AdjacencyDatabase.adjacencies =
        map (\<lambda>kv. overrideAdjacency (state lm) (adjacency (snd kv)))
          (filter (\<lambda>kv. AdjacencyValue.area (snd kv) = areaId) (adjacencies lm)),
      AdjacencyDatabase.nodeLabel =
        (if enableSegmentRouting (config lm) then LinkMonitorState.nodeLabel (state lm) else 0),
      AdjacencyDatabase.area = areaId,
      perfEvents =
        (if enablePerfMeasurement (config lm)
         then Some (addPerfEvent [] (nodeId (config lm)) ''ADJ_DB_UPDATED'') else None)\<rparr>"


text \<open>What advertising one area sends: the adjacency database under the key of the
  node, then the state to the config store.\<close>

definition adjAdvertisement :: "LinkMonitor \<Rightarrow> string \<Rightarrow> Effect list" where
  "adjAdvertisement lm areaId =
     [PersistKey areaId (kAdjDbMarker @ nodeId (config lm)) (buildAdjacencyDatabase lm areaId),
      StoreThriftObj kConfigKey (state lm)]"

text \<open>\<open>advertiseAdjacencies(const std::string& area)\<close>.\<close>

definition advertiseAdjacencies_area :: "string \<Rightarrow> LinkMonitor \<Rightarrow> LinkMonitor" where
  "advertiseAdjacencies_area areaId lm =
     (if adjHoldTimerScheduled lm then lm
      else
        let lm1 = (if advertiseAdjacenciesThrottledActive lm
                   then lm\<lparr>advertiseAdjacenciesThrottledActive := False\<rparr> else lm)
        in lm1\<lparr>effects := effects lm1 @ adjAdvertisement lm1 areaId\<rparr>)"

text \<open>\<open>advertiseAdjacencies()\<close>: every configured area in turn.\<close>

definition advertiseAdjacencies :: "LinkMonitor \<Rightarrow> LinkMonitor" where
  "advertiseAdjacencies lm =
     foldl (\<lambda>l ac. advertiseAdjacencies_area (fst ac) l) lm (areas (config lm))"

text \<open>Modelled from the spec: \<open>AsyncThrottle\<close> (AsyncThrottle.h is missing) is the
  throttle primitive "at most one fire per window; coalesce; cancellable", IDLE to ARMED
  on request and back to IDLE on fire or cancel.  A request arms it; one made while it
  is armed changes nothing.\<close>

definition advertiseAdjacenciesThrottled :: "LinkMonitor \<Rightarrow> LinkMonitor" where
  "advertiseAdjacenciesThrottled lm = lm\<lparr>advertiseAdjacenciesThrottledActive := True\<rparr>"

subsection \<open>Advertising interfaces and redistributed addresses\<close>

definition anyAreaShouldDiscoverOnIface :: "LinkMonitor \<Rightarrow> string \<Rightarrow> bool" where
  "anyAreaShouldDiscoverOnIface lm iface =
     foldl (\<lambda>anyMatch ac. anyMatch \<or> shouldDiscoverOnIface (snd ac) iface) False
       (areas (config lm))"

definition advertiseInterfaces :: "LinkMonitor \<Rightarrow> LinkMonitor" where
  "advertiseInterfaces lm =
     (let ifDb = \<lparr>InterfaceDatabase.thisNodeName = nodeId (config lm),
                  InterfaceDatabase.interfaces =
                    foldl (\<lambda>db ie.
                        if \<not> anyAreaShouldDiscoverOnIface lm (fst ie) then db
                        else emplace (fst ie)
                               ((getInterfaceInfo (snd ie))\<lparr>isUp := isActive (snd ie)\<rparr>) db)
                      [] (interfaces lm)\<rparr>
      in lm\<lparr>effects := effects lm @ [PushInterfaceDb ifDb]\<rparr>)"

text \<open>The prefix of an interface as \<open>advertiseRedistAddrs\<close> decorates it.\<close>

definition redistPrefix :: "LinkMonitor \<Rightarrow> InterfaceEntry \<Rightarrow> PrefixEntry \<Rightarrow> PrefixEntry" where
  "redistPrefix lm iface p =
     p\<lparr>forwardingType := prefixForwardingType (config lm),
       forwardingAlgorithm := prefixForwardingAlgorithm (config lm),
       tags := insert (nodeId (config lm) @ '':'' @ getIfName iface)
                 (insert ''INTERFACE_SUBNET'' (tags p)),
       metrics := (metrics p)\<lparr>path_preference := kDefaultPathPreference (config lm),
                              source_preference := kDefaultSourcePreference (config lm)\<rparr>\<rparr>"

text \<open>The body of the loop over \<open>interfaces_\<close> on the map \<open>areaPrefixes\<close>.\<close>

definition redistIfaceStep ::
  "LinkMonitor \<Rightarrow> (string \<Rightarrow> PrefixEntry list) \<Rightarrow> string \<times> InterfaceEntry
     \<Rightarrow> (string \<Rightarrow> PrefixEntry list)" where
  "redistIfaceStep lm areaPrefixes ie =
     (if \<not> isActive (snd ie) then areaPrefixes
      else
        let ifacePrefixes =
              map (redistPrefix lm (snd ie))
                (getGlobalUnicastNetworks (snd ie) (enableV4 (config lm)))
        in foldl (\<lambda>ap ac.
                    if shouldRedistributeIface (snd ac) (getIfName (snd ie))
                    then ap(fst ac := ap (fst ac) @ ifacePrefixes) else ap)
             areaPrefixes (areas (config lm)))"

text \<open>What \<open>advertiseRedistAddrs\<close> pushes once the hold timer has expired: one
  sync-by-type request per area, with the prefixes collected for it.\<close>

definition redistAdvertisement :: "LinkMonitor \<Rightarrow> Effect list" where
  "redistAdvertisement lm =
     (let areaPrefixes = foldl (redistIfaceStep lm) (\<lambda>_. []) (interfaces lm)
      in map (\<lambda>ac. PushPrefixUpdate
                 \<lparr>cmd = SYNC_PREFIXES_BY_TYPE, reqType = LOOPBACK,
                  prefixes = areaPrefixes (fst ac), dstAreas = {fst ac}\<rparr>)
           (areas (config lm)))"

definition advertiseRedistAddrs :: "LinkMonitor \<Rightarrow> LinkMonitor" where
  "advertiseRedistAddrs lm =
     (if adjHoldTimerScheduled lm then lm
      else lm\<lparr>effects := effects lm @ redistAdvertisement lm\<rparr>)"

definition getRetryTimeOnUnstableInterfaces :: "LinkMonitor \<Rightarrow> int" where
  "getRetryTimeOnUnstableInterfaces lm =
     foldl (\<lambda>minRemainMs ie.
              if isActive (snd ie) then minRemainMs
              else if getBackoffDuration (snd ie) > 0
                   then min (linkflapMaxBackoff (config lm)) (getBackoffDuration (snd ie))
                   else minRemainMs)
       0 (interfaces lm)"

definition advertiseIfaceAddr :: "LinkMonitor \<Rightarrow> LinkMonitor" where
  "advertiseIfaceAddr lm =
     (let retryTime = getRetryTimeOnUnstableInterfaces lm;
          lm1 = advertiseRedistAddrs (advertiseInterfaces lm);
          lm2 = (if advertiseIfaceAddrThrottledActive lm1
                 then lm1\<lparr>advertiseIfaceAddrThrottledActive := False\<rparr> else lm1)
      in if retryTime \<noteq> 0 then lm2\<lparr>advertiseIfaceAddrTimerScheduled := True\<rparr> else lm2)"

subsection \<open>Neighbor events\<close>

text \<open>The decimal digits that \<open>folly::sformat("{}", n)\<close> prints for an integer.\<close>

function showNat :: "nat \<Rightarrow> string" where
  "showNat n =
     (if n < 10 then [char_of (48 + n)]
      else showNat (n div 10) @ [char_of (48 + n mod 10)])"
  by pat_completeness auto
termination
  by (relation "measure (\<lambda>n. n)") auto

declare showNat.simps [simp del]

definition showInt64 :: "int64 \<Rightarrow> string" where
  "showInt64 w =
     (if sint w < 0 then CHR ''-'' # showNat (nat (- sint w)) else showNat (nat (sint w)))"

text \<open>Modelled from the spec: the bodies of \<open>createThriftAdjacency\<close> and
  \<open>createPeerSpec\<close> (Util.cpp) are missing; by their declarations in Util.h they build
  the structure from their arguments, each stored in the field of its name.\<close>

definition createThriftAdjacency ::
  "string \<Rightarrow> string \<Rightarrow> string \<Rightarrow> string \<Rightarrow> int32 \<Rightarrow> int32 \<Rightarrow> bool \<Rightarrow> int32 \<Rightarrow> int64 \<Rightarrow> int64
     \<Rightarrow> string \<Rightarrow> Adjacency" where
  "createThriftAdjacency node iface v6 v4 m adjLbl overloaded rtt32 ts w remoteIf =
     \<lparr>otherNodeName = node, Adjacency.ifName = iface, nextHopV6 = v6, nextHopV4 = v4,
      Adjacency.metric = m, adjLabel = adjLbl, Adjacency.isOverloaded = overloaded,
      rtt = rtt32, timestamp = ts, weight = w, otherIfName = remoteIf\<rparr>"

definition createPeerSpec :: "string \<Rightarrow> string \<Rightarrow> int32 \<Rightarrow> PeerSpec" where
  "createPeerSpec url thriftPeerAddr port =
     \<lparr>cmdUrl = url, peerAddr = thriftPeerAddr, ctrlPort = port\<rparr>"

text \<open>\<open>neighborUpEvent\<close>, in the order of its statements: the new adjacency
  (\<open>now\<close> is the clock reading in seconds; the 64-bit \<open>rttUs\<close> is narrowed where it is
  passed as the \<open>int32_t\<close> argument \<open>rtt\<close>), the two peer addresses, the peer spec (the
  64-bit port is narrowed likewise), the update of \<open>adjacencies_\<close>, and the two
  advertisements.\<close>

definition newAdjacency :: "int64 \<Rightarrow> SparkNeighbor \<Rightarrow> LinkMonitor \<Rightarrow> Adjacency" where
  "newAdjacency now nbr lm =
     createThriftAdjacency (nodeName nbr) (localIfName nbr)
       (transportAddressV6 nbr) (transportAddressV4 nbr)
       (if useRttMetric (config lm) then getRttMetric (rttUs nbr) else 1)
       (if enableSegmentRouting (config lm) then label nbr else 0)
       False
       (ucast (if useRttMetric (config lm) then rttUs nbr else 0))
       now
       (case map_of (interfaces lm) (localIfName nbr) of None \<Rightarrow> 1 | Some ie \<Rightarrow> getWeight ie)
       (remoteIfName nbr)"

definition repUrl :: "SparkNeighbor \<Rightarrow> LinkMonitor \<Rightarrow> string" where
  "repUrl nbr lm =
     (if \<not> mockMode (config lm)
      then ''tcp://['' @ transportAddressV6 nbr @ ''%'' @ localIfName nbr @ '']:''
             @ showInt64 (kvStoreCmdPort nbr)
      else ''inproc://'' @ nodeName nbr @ ''-kvstore-cmd-global'')"

definition peerAddress :: "SparkNeighbor \<Rightarrow> LinkMonitor \<Rightarrow> string" where
  "peerAddress nbr lm =
     (if \<not> mockMode (config lm) then transportAddressV6 nbr @ ''%'' @ localIfName nbr
      else ''::1%'' @ localIfName nbr)"

definition newAdjacencyValue :: "int64 \<Rightarrow> SparkNeighbor \<Rightarrow> LinkMonitor \<Rightarrow> AdjacencyValue" where
  "newAdjacencyValue now nbr lm =
     \<lparr>AdjacencyValue.area = SparkNeighbor.area nbr,
      peerSpec = createPeerSpec (repUrl nbr lm) (peerAddress nbr lm)
                   (ucast (openrCtrlThriftPort nbr)),
      adjacency = newAdjacency now nbr lm,
      isRestarting = False\<rparr>"

definition neighborUpEvent :: "int64 \<Rightarrow> SparkNeighborEvent \<Rightarrow> LinkMonitor \<Rightarrow> Failure + LinkMonitor" where
  "neighborUpEvent now ev lm =
     (let nbr = info ev;
          adjValue = newAdjacencyValue now nbr lm
      in if repUrl nbr lm = [] \<or> peerAddress nbr lm = [] then Inl CheckFailed
         else
           case advertiseKvStorePeers (SparkNeighbor.area nbr)
                  [(nodeName nbr, peerSpec adjValue)]
                  (lm\<lparr>adjacencies :=
                       AList.update (nodeName nbr, localIfName nbr) adjValue (adjacencies lm)\<rparr>) of
             Inl f \<Rightarrow> Inl f
           | Inr lm2 \<Rightarrow> Inr (advertiseAdjacenciesThrottled lm2))"

definition neighborDownEvent :: "SparkNeighborEvent \<Rightarrow> LinkMonitor \<Rightarrow> Failure + LinkMonitor" where
  "neighborDownEvent ev lm =
     (let nbr = info ev;
          adjId = (nodeName nbr, localIfName nbr);
          lm1 = lm\<lparr>adjacencies := AList.delete adjId (adjacencies lm)\<rparr>
      in case advertiseKvStorePeers (SparkNeighbor.area nbr) [] lm1 of
           Inl f \<Rightarrow> Inl f
         | Inr lm2 \<Rightarrow> Inr (advertiseAdjacencies_area (SparkNeighbor.area nbr) lm2))"

definition neighborRestartingEvent ::
  "SparkNeighborEvent \<Rightarrow> LinkMonitor \<Rightarrow> Failure + LinkMonitor" where
  "neighborRestartingEvent ev lm =
     (let nbr = info ev;
          adjId = (nodeName nbr, localIfName nbr);
          lm1 = (case map_of (adjacencies lm) adjId of
                   None \<Rightarrow> lm
                 | Some adjValue \<Rightarrow>
                     lm\<lparr>adjacencies :=
                          AList.update adjId (adjValue\<lparr>isRestarting := True\<rparr>) (adjacencies lm)\<rparr>)
      in advertiseKvStorePeers (SparkNeighbor.area nbr) [] lm1)"

definition neighborRttChangeEvent :: "SparkNeighborEvent \<Rightarrow> LinkMonitor \<Rightarrow> LinkMonitor" where
  "neighborRttChangeEvent ev lm =
     (let nbr = info ev;
          adjId = (nodeName nbr, localIfName nbr);
          newRttMetric = getRttMetric (rttUs nbr)
      in case map_of (adjacencies lm) adjId of
           None \<Rightarrow> lm
         | Some adjValue \<Rightarrow>
             advertiseAdjacenciesThrottled
               (lm\<lparr>adjacencies :=
                    AList.update adjId
                      (adjValue\<lparr>adjacency :=
                         (adjacency adjValue)\<lparr>Adjacency.metric := newRttMetric,
                                               rtt := ucast (rttUs nbr)\<rparr>\<rparr>)
                      (adjacencies lm)\<rparr>))"

definition processNeighborEvent ::
  "int64 \<Rightarrow> SparkNeighborEvent \<Rightarrow> LinkMonitor \<Rightarrow> Failure + LinkMonitor" where
  "processNeighborEvent now ev lm =
     (case eventType ev of
        NEIGHBOR_UP \<Rightarrow> neighborUpEvent now ev lm
      | NEIGHBOR_RESTARTED \<Rightarrow> neighborUpEvent now ev lm
      | NEIGHBOR_RESTARTING \<Rightarrow> neighborRestartingEvent ev lm
      | NEIGHBOR_DOWN \<Rightarrow> neighborDownEvent ev lm
      | NEIGHBOR_RTT_CHANGE \<Rightarrow>
          if \<not> useRttMetric (config lm) then Inr lm else Inr (neighborRttChangeEvent ev lm))"

subsection \<open>Operator commands\<close>

text \<open>\<open>p.setValue()\<close>: the answer to the caller.\<close>

definition setValue :: "LinkMonitor \<Rightarrow> LinkMonitor" where
  "setValue lm = lm\<lparr>effects := effects lm @ [SetValue]\<rparr>"

definition setNodeOverload :: "bool \<Rightarrow> LinkMonitor \<Rightarrow> LinkMonitor" where
  "setNodeOverload flag lm =
     (if LinkMonitorState.isOverloaded (state lm) = flag then setValue lm
      else setValue
             (advertiseAdjacencies
                (lm\<lparr>state := (state lm)\<lparr>LinkMonitorState.isOverloaded := flag\<rparr>\<rparr>)))"

definition setInterfaceOverload :: "string \<Rightarrow> bool \<Rightarrow> LinkMonitor \<Rightarrow> LinkMonitor" where
  "setInterfaceOverload interfaceName flag lm =
     (if map_of (interfaces lm) interfaceName = None then setValue lm
      else if flag \<and> interfaceName \<in> overloadedLinks (state lm) then setValue lm
      else if \<not> flag \<and> interfaceName \<notin> overloadedLinks (state lm) then setValue lm
      else
        let st = (if flag
                  then (state lm)\<lparr>overloadedLinks := insert interfaceName (overloadedLinks (state lm))\<rparr>
                  else (state lm)\<lparr>overloadedLinks := overloadedLinks (state lm) - {interfaceName}\<rparr>)
        in setValue (advertiseAdjacenciesThrottled (lm\<lparr>state := st\<rparr>)))"

definition setLinkMetric :: "string \<Rightarrow> int32 option \<Rightarrow> LinkMonitor \<Rightarrow> LinkMonitor" where
  "setLinkMetric interfaceName overrideMetric lm =
     (if map_of (interfaces lm) interfaceName = None then setValue lm
      else if overrideMetric \<noteq> None
              \<and> linkMetricOverrides (state lm) interfaceName = overrideMetric then setValue lm
      else if overrideMetric = None \<and> linkMetricOverrides (state lm) interfaceName = None
           then setValue lm
      else
        let st = (state lm)\<lparr>linkMetricOverrides :=
                    (linkMetricOverrides (state lm))(interfaceName := overrideMetric)\<rparr>
        in setValue (advertiseAdjacenciesThrottled (lm\<lparr>state := st\<rparr>)))"

definition setAdjacencyMetric ::
  "string \<Rightarrow> string \<Rightarrow> int32 option \<Rightarrow> LinkMonitor \<Rightarrow> LinkMonitor" where
  "setAdjacencyMetric interfaceName adjNodeName overrideMetric lm =
     (let adjKey = (adjNodeName, interfaceName) in
      if map_of (adjacencies lm) (adjNodeName, interfaceName) = None then setValue lm
      else if overrideMetric \<noteq> None
              \<and> adjMetricOverrides (state lm) adjKey = overrideMetric then setValue lm
      else if overrideMetric = None \<and> adjMetricOverrides (state lm) adjKey = None
           then setValue lm
      else
        let st = (state lm)\<lparr>adjMetricOverrides :=
                    (adjMetricOverrides (state lm))(adjKey := overrideMetric)\<rparr>
        in setValue (advertiseAdjacenciesThrottled (lm\<lparr>state := st\<rparr>)))"

subsection \<open>Construction\<close>

text \<open>Modelled from the spec: the Thrift definition of \<open>LinkMonitorState\<close> is missing; a
  default-constructed state has node label 0, is not overloaded and has no overloaded
  link and no metric override.\<close>

definition defaultLinkMonitorState :: LinkMonitorState where
  "defaultLinkMonitorState =
     \<lparr>LinkMonitorState.nodeLabel = 0, LinkMonitorState.isOverloaded = False,
      overloadedLinks = {}, linkMetricOverrides = Map.empty, adjMetricOverrides = Map.empty\<rparr>"

text \<open>The part of the constructor that sets \<open>state_\<close>; \<open>loaded\<close> is what
  \<open>configStore_->loadThriftObj<thrift::LinkMonitorState>(kConfigKey)\<close> returned, \<open>None\<close>
  when it holds an error.\<close>

definition initialState :: "LinkMonitorState option \<Rightarrow> bool \<Rightarrow> bool \<Rightarrow> LinkMonitorState" where
  "initialState loaded assumeDrained overrideDrainState =
     (let st = (case loaded of
                  Some s \<Rightarrow> s
                | None \<Rightarrow> defaultLinkMonitorState\<lparr>LinkMonitorState.isOverloaded := assumeDrained\<rparr>)
      in if overrideDrainState then st\<lparr>LinkMonitorState.isOverloaded := assumeDrained\<rparr> else st)"

text \<open>The constructed object: no adjacency, interface or peer yet, the throttles idle,
  and the hold timer scheduled (\<open>adjHoldTimer_->scheduleTimeout(adjHoldTime)\<close>).\<close>

definition newLinkMonitor ::
  "Config \<Rightarrow> LinkMonitorState option \<Rightarrow> bool \<Rightarrow> bool \<Rightarrow> LinkMonitor" where
  "newLinkMonitor cfg loaded assumeDrained overrideDrainState =
     \<lparr>config = cfg,
      state = initialState loaded assumeDrained overrideDrainState,
      adjacencies = [], interfaces = [], peers = (\<lambda>_. []),
      adjHoldTimerScheduled = True,
      advertiseAdjacenciesThrottledActive = False,
      advertiseIfaceAddrThrottledActive = False,
      advertiseIfaceAddrTimerScheduled = False,
      effects = []\<rparr>"

subsection \<open>The event loop\<close>

text \<open>
  What the event base of the link monitor runs, one at a time: the expiry of the hold
  timer, the firing of the adjacency throttle, the firing of the interface throttle or
  timer, a neighbor event (with the clock reading), the callback of the node label
  allocator, and the four operator commands.  \<open>InterfacesUpdated\<close> stands for
  \<open>syncInterfaces\<close> and \<open>processNetlinkEvent\<close>, which change \<open>interfaces_\<close> only through
  methods of \<open>InterfaceEntry\<close> (not among the sources): the new map is given with the
  event.
\<close>

datatype Event =
    AdjHoldTimerExpired
  | AdvertiseAdjacenciesThrottledFired
  | AdvertiseIfaceAddrThrottledFired
  | AdvertiseIfaceAddrTimerFired
  | InterfacesUpdated "(string \<times> InterfaceEntry) list"
  | NeighborEvent int64 SparkNeighborEvent
  | NodeLabelCallback "int32 option"
  | SetNodeOverload bool
  | SetInterfaceOverload string bool
  | SetLinkMetric string "int32 option"
  | SetAdjacencyMetric string string "int32 option"

text \<open>A timer is no longer scheduled, and a throttle no longer active, when its callback
  runs.\<close>

fun step :: "Event \<Rightarrow> LinkMonitor \<Rightarrow> Failure + LinkMonitor" where
  "step AdjHoldTimerExpired lm =
     (if adjHoldTimerScheduled lm
      then Inr (advertiseRedistAddrs (advertiseAdjacencies (lm\<lparr>adjHoldTimerScheduled := False\<rparr>)))
      else Inr lm)"
| "step AdvertiseAdjacenciesThrottledFired lm =
     (if advertiseAdjacenciesThrottledActive lm
      then Inr (advertiseAdjacencies (lm\<lparr>advertiseAdjacenciesThrottledActive := False\<rparr>))
      else Inr lm)"
| "step AdvertiseIfaceAddrThrottledFired lm =
     Inr (advertiseIfaceAddr (lm\<lparr>advertiseIfaceAddrThrottledActive := False\<rparr>))"
| "step AdvertiseIfaceAddrTimerFired lm =
     Inr (advertiseIfaceAddr (lm\<lparr>advertiseIfaceAddrTimerScheduled := False\<rparr>))"
| "step (InterfacesUpdated ifs) lm = Inr (lm\<lparr>interfaces := ifs\<rparr>)"
| "step (NeighborEvent now ev) lm = processNeighborEvent now ev lm"
| "step (NodeLabelCallback newVal) lm =
     (if enableSegmentRouting (config lm)
      then Inr (advertiseAdjacencies
                  (lm\<lparr>state := (state lm)\<lparr>LinkMonitorState.nodeLabel :=
                         (case newVal of None \<Rightarrow> 0 | Some v \<Rightarrow> v)\<rparr>\<rparr>))
      else Inr lm)"
| "step (SetNodeOverload flag) lm = Inr (setNodeOverload flag lm)"
| "step (SetInterfaceOverload interfaceName flag) lm =
     Inr (setInterfaceOverload interfaceName flag lm)"
| "step (SetLinkMetric interfaceName overrideMetric) lm =
     Inr (setLinkMetric interfaceName overrideMetric lm)"
| "step (SetAdjacencyMetric interfaceName adjNodeName overrideMetric) lm =
     Inr (setAdjacencyMetric interfaceName adjNodeName overrideMetric lm)"

fun run :: "LinkMonitor \<Rightarrow> Event list \<Rightarrow> Failure + LinkMonitor" where
  "run lm [] = Inr lm"
| "run lm (e # es) = (case step e lm of Inl f \<Rightarrow> Inl f | Inr lm' \<Rightarrow> run lm' es)"

text \<open>An effect that publishes an advertisement: a key written to the KvStore or a
  prefix update pushed to the prefix manager.\<close>

fun isAdvertisement :: "Effect \<Rightarrow> bool" where
  "isAdvertisement (PersistKey _ _ _) = True"
| "isAdvertisement (PushPrefixUpdate _) = True"
| "isAdvertisement _ = False"

section \<open>Best prefix selection (selectBestPrefixMetrics)\<close>

type_synonym metricsTuple = "int32 \<times> int32 \<times> int32"

text \<open>\<open>operator<\<close> of \<open>std::tuple<int32_t, int32_t, int32_t>\<close>: lexicographic, built from
  \<open><\<close> on the components only.\<close>

definition tuple_less :: "metricsTuple \<Rightarrow> metricsTuple \<Rightarrow> bool" where
  "tuple_less a b =
     (case a of (a1, a2, a3) \<Rightarrow> case b of (b1, b2, b3) \<Rightarrow>
        a1 <s b1 \<or> (\<not> b1 <s a1 \<and> (a2 <s b2 \<or> (\<not> b2 <s a2 \<and> a3 <s b3))))"

text \<open>The tuple built in the loop body; \<open>distance * -1\<close> is a 32-bit product.\<close>

definition metricsTupleOf :: "PrefixMetrics \<Rightarrow> metricsTuple" where
  "metricsTupleOf m = (path_preference m, source_preference m, distance m * (- 1))"

text \<open>One iteration of the \<open>for\<close> loop over \<open>prefixes\<close>; the loop state is
  \<open>(bestMetricsTuple, bestKeys)\<close>.\<close>

definition bestMetricsStep ::
  "('w \<Rightarrow> PrefixMetrics) \<Rightarrow> metricsTuple \<times> 'k set \<Rightarrow> 'k \<times> 'w \<Rightarrow> metricsTuple \<times> 'k set" where
  "bestMetricsStep metrics_ref st kw =
     (case st of (bestMetricsTuple, bestKeys) \<Rightarrow> case kw of (key, metricsWrapper) \<Rightarrow>
        let metricsTuple = metricsTupleOf (metrics_ref metricsWrapper) in
        if tuple_less metricsTuple bestMetricsTuple then (bestMetricsTuple, bestKeys)
        else if tuple_less bestMetricsTuple metricsTuple then (metricsTuple, {key})
        else (bestMetricsTuple, insert key bestKeys))"

definition selectBestPrefixMetrics :: "('w \<Rightarrow> PrefixMetrics) \<Rightarrow> ('k \<times> 'w) list \<Rightarrow> 'k set" where
  "selectBestPrefixMetrics metrics_ref prefixMap =
     snd (foldl (bestMetricsStep metrics_ref) ((INT32_MIN, INT32_MIN, INT32_MIN), {}) prefixMap)"

text \<open>The value of a tuple as a triple of integers, ordered lexicographically
  (\<open>Product_Lexorder\<close>).\<close>

definition tupleVal :: "metricsTuple \<Rightarrow> int \<times> int \<times> int" where
  "tupleVal t = (case t of (a, b, c) \<Rightarrow> (sint a, sint b, sint c))"

text \<open>The tuple of the specification over the integers: path preference, source
  preference, and the negated distance.\<close>

definition specTuple :: "PrefixMetrics \<Rightarrow> int \<times> int \<times> int" where
  "specTuple m = (sint (path_preference m), sint (source_preference m), - sint (distance m))"

text \<open>The selection in the words of the specification: the keys of the entries whose
  tuple over the integers is greatest among the tuples of all entries.\<close>

definition specBestKeys :: "('w \<Rightarrow> PrefixMetrics) \<Rightarrow> ('k \<times> 'w) list \<Rightarrow> 'k set" where
  "specBestKeys metrics_ref prefixMap =
     set (map fst (filter
       (\<lambda>kw. list_all
          (\<lambda>kw'. specTuple (metrics_ref (snd kw')) \<le> specTuple (metrics_ref (snd kw)))
          prefixMap)
       prefixMap))"

section \<open>MPLS next-hop selection (selectMplsNextHops)\<close>

definition hasAction :: "MplsActionCode \<Rightarrow> NextHopThrift \<Rightarrow> bool" where
  "hasAction code nextHop =
     (case mplsAction nextHop of None \<Rightarrow> False | Some a \<Rightarrow> action a = code)"

text \<open>Modelled from the spec: the body of \<open>selectMplsNextHops\<close> (openr/common/Util.cpp) is
  missing; only its declaration and comment are in Util.h.  The comment says it
  returns the "subset of nextHops with the same MplsActionCode. PHP (immediate)
  next-hops are preferred over SWAP (in-direct) next-hops", and the specification that
  "if any PHP is present, all SWAP next-hops are dropped".\<close>

definition selectMplsNextHops :: "NextHopThrift list \<Rightarrow> NextHopThrift list" where
  "selectMplsNextHops nextHops =
     (if list_ex (hasAction PHP) nextHops then filter (hasAction PHP) nextHops
      else filter (hasAction SWAP) nextHops)"

section \<open>Example inputs\<close>

definition examplePrefixes :: "(string \<times> PrefixEntry) list" where
  "examplePrefixes =
     [(''nodeA'', \<lparr>prefix = ''fc00::/64'', prefixType = LOOPBACK, forwardingType = IP,
         forwardingAlgorithm = SP_ECMP, tags = {},
         metrics = \<lparr>path_preference = 1000, source_preference = 100, distance = 3\<rparr>\<rparr>),
      (''nodeB'', \<lparr>prefix = ''fc00::/64'', prefixType = LOOPBACK, forwardingType = IP,
         forwardingAlgorithm = SP_ECMP, tags = {},
         metrics = \<lparr>path_preference = 1000, source_preference = 100, distance = 1\<rparr>\<rparr>),
      (''nodeC'', \<lparr>prefix = ''fc00::/64'', prefixType = BGP, forwardingType = IP,
         forwardingAlgorithm = SP_ECMP, tags = {},
         metrics = \<lparr>path_preference = 1000, source_preference = 100, distance = 1\<rparr>\<rparr>),
      (''nodeD'', \<lparr>prefix = ''fc00::/64'', prefixType = CONFIG, forwardingType = IP,
         forwardingAlgorithm = SP_ECMP, tags = {},
         metrics = \<lparr>path_preference = 900, source_preference = 200, distance = 0\<rparr>\<rparr>)]"

text \<open>Two entries with equal preferences; the distance of \<open>nodeA\<close> is the smallest
  32-bit integer, the one value whose product with \<open>-1\<close> does not fit in 32 bits.\<close>

definition overflowPrefixes :: "(string \<times> PrefixEntry) list" where
  "overflowPrefixes =
     [(''nodeA'', \<lparr>prefix = ''fc00::/64'', prefixType = LOOPBACK, forwardingType = IP,
         forwardingAlgorithm = SP_ECMP, tags = {},
         metrics = \<lparr>path_preference = 1, source_preference = 1, distance = INT32_MIN\<rparr>\<rparr>),
      (''nodeB'', \<lparr>prefix = ''fc00::/64'', prefixType = LOOPBACK, forwardingType = IP,
         forwardingAlgorithm = SP_ECMP, tags = {},
         metrics = \<lparr>path_preference = 1, source_preference = 1, distance = 0\<rparr>\<rparr>)]"

definition phpNextHop :: NextHopThrift where
  "phpNextHop =
     \<lparr>address = ''fe80::1'', NextHopThrift.ifName = Some ''eth1'', NextHopThrift.metric = 1,
      mplsAction = Some \<lparr>action = PHP, swapLabel = None, pushLabels = None\<rparr>,
      NextHopThrift.area = None, neighborNodeName = Some ''N1''\<rparr>"

definition swapNextHop :: NextHopThrift where
  "swapNextHop =
     \<lparr>address = ''fe80::2'', NextHopThrift.ifName = Some ''eth2'', NextHopThrift.metric = 2,
      mplsAction = Some \<lparr>action = SWAP, swapLabel = Some 100, pushLabels = None\<rparr>,
      NextHopThrift.area = None, neighborNodeName = Some ''N2''\<rparr>"

definition examplePeerSpec :: "string \<Rightarrow> PeerSpec" where
  "examplePeerSpec iface =
     \<lparr>cmdUrl = ''tcp://[fe80::b%'' @ iface @ '']:60002'', peerAddr = ''fe80::b%'' @ iface,
      ctrlPort = 2018\<rparr>"

definition exampleAdjacency :: "string \<Rightarrow> string \<Rightarrow> int32 \<Rightarrow> Adjacency" where
  "exampleAdjacency node iface m =
     \<lparr>otherNodeName = node, Adjacency.ifName = iface, nextHopV6 = ''fe80::b'',
      nextHopV4 = ''10.0.0.2'', Adjacency.metric = m, adjLabel = 0,
      Adjacency.isOverloaded = False, rtt = 0, timestamp = 0, weight = 1,
      otherIfName = iface\<rparr>"

definition exampleAdjacencyValue ::
  "string \<Rightarrow> string \<Rightarrow> string \<Rightarrow> bool \<Rightarrow> AdjacencyKey \<times> AdjacencyValue" where
  "exampleAdjacencyValue node iface areaId restarting =
     ((node, iface),
      \<lparr>AdjacencyValue.area = areaId, peerSpec = examplePeerSpec iface,
       adjacency = exampleAdjacency node iface 1, isRestarting = restarting\<rparr>)"

text \<open>Node B over three parallel links, the one with the smallest name restarting, and
  node C in another area.\<close>

definition exampleAdjacencies :: "(AdjacencyKey \<times> AdjacencyValue) list" where
  "exampleAdjacencies =
     [exampleAdjacencyValue ''B'' ''eth2'' ''0'' False,
      exampleAdjacencyValue ''B'' ''eth1'' ''0'' False,
      exampleAdjacencyValue ''B'' ''eth0'' ''0'' True,
      exampleAdjacencyValue ''C'' ''eth3'' ''1'' False]"

definition exampleAreaConfiguration :: AreaConfiguration where
  "exampleAreaConfiguration =
     \<lparr>shouldDiscoverOnIface = (\<lambda>iface. True), shouldRedistributeIface = (\<lambda>iface. iface = ''lo'')\<rparr>"

definition exampleConfig :: Config where
  "exampleConfig =
     \<lparr>nodeId = ''A'', enablePerfMeasurement = False, enableV4 = False,
      enableSegmentRouting = False, prefixForwardingType = IP,
      prefixForwardingAlgorithm = SP_ECMP, useRttMetric = True, linkflapMaxBackoff = 60000,
      areas = [(''0'', exampleAreaConfiguration)], mockMode = False,
      kDefaultPathPreference = 1000, kDefaultSourcePreference = 100\<rparr>"

definition exampleInterface :: "string \<Rightarrow> string \<times> InterfaceEntry" where
  "exampleInterface iface =
     (iface,
      \<lparr>getIfName = iface, getWeight = 1, isActive = True,
       getInterfaceInfo = \<lparr>isUp = True, ifIndex = 1, networks = []\<rparr>,
       getGlobalUnicastNetworks = (\<lambda>v4. []), getBackoffDuration = 0\<rparr>)"

text \<open>A link monitor just constructed (nothing persisted, not drained), with its hold
  timer still scheduled, and the same one later: two interfaces known, the hold timer
  expired.\<close>

definition startingLinkMonitor :: LinkMonitor where
  "startingLinkMonitor = newLinkMonitor exampleConfig None False False"

definition runningLinkMonitor :: LinkMonitor where
  "runningLinkMonitor =
     startingLinkMonitor
       \<lparr>interfaces := [exampleInterface ''eth1'', exampleInterface ''eth2''],
        adjHoldTimerScheduled := False\<rparr>"

definition exampleNeighbor :: "int64 \<Rightarrow> SparkNeighbor" where
  "exampleNeighbor r =
     \<lparr>nodeName = ''B'', transportAddressV4 = ''10.0.0.2'', transportAddressV6 = ''fe80::b'',
      kvStoreCmdPort = 60002, openrCtrlThriftPort = 2018, label = 0, rttUs = r,
      remoteIfName = ''eth7'', localIfName = ''eth1'', SparkNeighbor.area = ''0''\<rparr>"

definition neighborUp :: "int64 \<Rightarrow> SparkNeighborEvent" where
  "neighborUp r = \<lparr>eventType = NEIGHBOR_UP, info = exampleNeighbor r\<rparr>"

text \<open>Events of a start-up, none of them the expiry of the hold timer: interfaces are
  learnt and advertised, neighbor B comes up, the operator drains the node and overrides
  a link metric, the adjacency throttle fires, and the neighbor goes down again.\<close>

definition startupEvents :: "Event list" where
  "startupEvents =
     [InterfacesUpdated [exampleInterface ''eth1'', exampleInterface ''lo''],
      AdvertiseIfaceAddrThrottledFired,
      NeighborEvent 0 (neighborUp 250),
      SetNodeOverload True,
      SetLinkMetric ''eth1'' (Some 5),
      AdvertiseAdjacenciesThrottledFired,
      NeighborEvent 7 \<lparr>eventType = NEIGHBOR_DOWN, info = exampleNeighbor 250\<rparr>]"

section \<open>Properties of the pure functions\<close>

subsection \<open>Association lists\<close>

lemma map_of_emplace:
  "map_of (emplace k v m) = (case map_of m k of None \<Rightarrow> (map_of m)(k \<mapsto> v) | Some _ \<Rightarrow> map_of m)"
  by (rule ext) (auto simp: emplace_def map_add_def split: option.splits)

lemma distinct_emplace: "distinct (map fst m) \<Longrightarrow> distinct (map fst (emplace k v m))"
  by (auto simp: emplace_def map_of_eq_None_iff split: option.splits)

subsection \<open>Peer derivation\<close>

lemma map_of_neighborToIfaceStep:
  "map_of (neighborToIfaceStep a m ((n, i), v)) =
     (if AdjacencyValue.area v \<noteq> a \<or> isRestarting v then map_of m
      else case map_of m n of None \<Rightarrow> (map_of m)(n \<mapsto> i)
           | Some cur \<Rightarrow> if i < cur then (map_of m)(n \<mapsto> i) else map_of m)"
  by (auto simp: neighborToIfaceStep_def map_of_emplace update_conv' split: option.splits)

lemma distinct_neighborToIfaceStep:
  "distinct (map fst m) \<Longrightarrow> distinct (map fst (neighborToIfaceStep a m kv))"
  by (auto simp: neighborToIfaceStep_def distinct_emplace distinct_update
           split: option.splits prod.splits)

lemma distinct_neighborToIface:
  "distinct (map fst (foldl (neighborToIfaceStep a) [] xs))"
  by (induction xs rule: rev_induct) (auto simp: distinct_neighborToIfaceStep)

text \<open>After the first loop, \<open>neighborToIface\<close> holds for each node the smallest
  interface name among its adjacencies that were not skipped, and nothing else.\<close>

lemma neighborToIface_lookup:
  "(map_of (foldl (neighborToIfaceStep a) [] xs) n = None
      \<longleftrightarrow> \<not> (\<exists>kv \<in> set xs. eligible a n kv))
   \<and> (\<forall>i. map_of (foldl (neighborToIfaceStep a) [] xs) n = Some i \<longleftrightarrow> minIface a xs n i)"
proof (induction xs rule: rev_induct)
  case Nil
  show ?case by (simp add: minIface_def)
next
  case (snoc x xs)
  obtain n' i' v where x: "x = ((n', i'), v)" by (cases x) auto
  let ?m = "foldl (neighborToIfaceStep a) [] xs"
  show ?case
  proof (cases "eligible a n x")
    case False
    then have same: "map_of (neighborToIfaceStep a ?m x) n = map_of ?m n"
      unfolding x by (auto simp: map_of_neighborToIfaceStep eligible_def split: option.splits)
    from False have "minIface a (xs @ [x]) n i \<longleftrightarrow> minIface a xs n i" for i
      by (auto simp: minIface_def)
    with False same snoc.IH show ?thesis by auto
  next
    case True
    then have n': "n' = n" and ok: "AdjacencyValue.area v = a" "\<not> isRestarting v"
      unfolding x by (auto simp: eligible_def)
    show ?thesis
    proof (cases "map_of ?m n")
      case None
      with snoc.IH have none: "\<forall>kv \<in> set xs. \<not> eligible a n kv" by auto
      from None ok have "map_of (neighborToIfaceStep a ?m x) n = Some i'"
        unfolding x n' by (simp add: map_of_neighborToIfaceStep)
      moreover have "minIface a (xs @ [x]) n i \<longleftrightarrow> i = i'" for i
        using none True unfolding x by (auto simp: minIface_def)
      ultimately show ?thesis using True by auto
    next
      case (Some cur)
      with snoc.IH have cur: "minIface a xs n cur" by auto
      have new: "map_of (neighborToIfaceStep a ?m x) n = Some (if i' < cur then i' else cur)"
        using Some ok unfolding x n' by (simp add: map_of_neighborToIfaceStep)
      have "minIface a (xs @ [x]) n i \<longleftrightarrow> i = (if i' < cur then i' else cur)" for i
      proof
        assume m: "minIface a (xs @ [x]) n i"
        then have le: "i \<le> i'" "i \<le> cur"
          using True cur unfolding x by (auto simp: minIface_def)
        from m have "i = i' \<or> (\<exists>kv \<in> set xs. eligible a n kv \<and> snd (fst kv) = i)"
          unfolding x by (auto simp: minIface_def)
        then have "i = i' \<or> cur \<le> i" using cur by (auto simp: minIface_def)
        with le show "i = (if i' < cur then i' else cur)" by auto
      next
        assume "i = (if i' < cur then i' else cur)"
        then show "minIface a (xs @ [x]) n i"
          using cur True unfolding x by (fastforce simp: minIface_def)
      qed
      with new True show ?thesis by auto
    qed
  qed
qed

text \<open>The second loop never throws when every pair of \<open>neighborToIface\<close> is a key of
  the adjacency map, and then looks each node's interface up there.\<close>

lemma collectPeers_lookup:
  assumes "\<forall>kv \<in> set nti. map_of adjs kv \<noteq> None" and "distinct (map fst acc)"
  shows "\<exists>res. collectPeers adjs nti acc = Inr res \<and> distinct (map fst res) \<and>
           (\<forall>n. map_of res n =
              (case map_of acc n of Some p \<Rightarrow> Some p
               | None \<Rightarrow> (case map_of nti n of None \<Rightarrow> None
                          | Some i \<Rightarrow> map_option peerSpec (map_of adjs (n, i)))))"
  using assms
proof (induction nti arbitrary: acc)
  case Nil
  then show ?case by (auto split: option.splits)
next
  case (Cons kv rest)
  obtain n i where kv: "kv = (n, i)" by (cases kv) auto
  from Cons.prems obtain v where v: "map_of adjs (n, i) = Some v" unfolding kv by auto
  let ?acc = "emplace n (peerSpec v) acc"
  have d: "distinct (map fst ?acc)" using Cons.prems by (simp add: distinct_emplace)
  from Cons.prems have "\<forall>kv \<in> set rest. map_of adjs kv \<noteq> None" by simp
  from Cons.IH [OF this d] obtain res where res:
    "collectPeers adjs rest ?acc = Inr res" "distinct (map fst res)"
    "\<forall>m. map_of res m = (case map_of ?acc m of Some p \<Rightarrow> Some p
               | None \<Rightarrow> (case map_of rest m of None \<Rightarrow> None
                          | Some j \<Rightarrow> map_option peerSpec (map_of adjs (m, j))))"
    by blast
  have "collectPeers adjs (kv # rest) acc = Inr res"
    using res(1) v unfolding kv by simp
  moreover have "map_of res m =
              (case map_of acc m of Some p \<Rightarrow> Some p
               | None \<Rightarrow> (case map_of (kv # rest) m of None \<Rightarrow> None
                          | Some j \<Rightarrow> map_option peerSpec (map_of adjs (m, j))))" for m
    using res(3) v unfolding kv by (auto simp: map_of_emplace split: option.splits)
  ultimately show ?case using res(2) by blast
qed

text \<open>The order in which the second loop visits \<open>neighborToIface\<close> does not matter:
  two enumerations of the same map give the same peers.\<close>

lemma collectPeers_order:
  assumes "\<forall>kv \<in> set nti. map_of adjs kv \<noteq> None"
    and "distinct (map fst nti)" "distinct (map fst nti')" "map_of nti' = map_of nti"
  shows "\<exists>res res'. collectPeers adjs nti [] = Inr res \<and> collectPeers adjs nti' [] = Inr res'
           \<and> map_of res' = map_of res"
proof -
  from assms(2-4) have "set nti' = set nti" by (simp add: map_of_inject_set)
  with assms(1) have keys': "\<forall>kv \<in> set nti'. map_of adjs kv \<noteq> None" by simp
  from collectPeers_lookup [OF assms(1), of "[]"] obtain res where res:
    "collectPeers adjs nti [] = Inr res"
    "\<forall>n. map_of res n = (case map_of nti n of None \<Rightarrow> None
                          | Some i \<Rightarrow> map_option peerSpec (map_of adjs (n, i)))"
    by auto
  from collectPeers_lookup [OF keys', of "[]"] obtain res' where res':
    "collectPeers adjs nti' [] = Inr res'"
    "\<forall>n. map_of res' n = (case map_of nti' n of None \<Rightarrow> None
                          | Some i \<Rightarrow> map_option peerSpec (map_of adjs (n, i)))"
    by auto
  from res(2) res'(2) assms(4) have "map_of res' = map_of res" by (intro ext) simp
  with res(1) res'(1) show ?thesis by blast
qed

text \<open>
  Claim C1.  For every adjacency map (an association list with distinct keys, in any
  order) and every area, \<open>getPeersFromAdjacencies\<close> returns normally, and the peer
  map it returns has one entry per node name (its keys are distinct); a node has no entry
  when it has no non-restarting adjacency in the area; and when it has one, its entry
  is the peer spec of the adjacency whose local interface name is the smallest among
  the node's non-restarting adjacencies in the area.  Restarting adjacencies and those
  of another area never contribute.
\<close>

theorem getPeersFromAdjacencies_peers:
  assumes "distinct (map fst adjs)"
  shows "\<exists>res. getPeersFromAdjacencies adjs a = Inr res \<and> distinct (map fst res) \<and>
     (\<forall>n. ((\<forall>kv \<in> set adjs. \<not> eligible a n kv) \<longrightarrow> map_of res n = None) \<and>
          ((\<exists>kv \<in> set adjs. eligible a n kv) \<longrightarrow> map_of res n \<noteq> None) \<and>
          (\<forall>i v. ((n, i), v) \<in> set adjs \<and> eligible a n ((n, i), v) \<and>
                 (\<forall>kv \<in> set adjs. eligible a n kv \<longrightarrow> i \<le> snd (fst kv))
                 \<longrightarrow> map_of res n = Some (peerSpec v)))"
proof -
  let ?nti = "foldl (neighborToIfaceStep a) [] adjs"
  note lk = neighborToIface_lookup [of a adjs]
  have keys: "\<forall>kv \<in> set ?nti. map_of adjs kv \<noteq> None"
  proof
    fix kv assume kvin: "kv \<in> set ?nti"
    obtain n i where kv: "kv = (n, i)" by (cases kv) auto
    from kvin have "map_of ?nti n = Some i"
      unfolding kv using distinct_neighborToIface [of a adjs] by simp
    with lk [of n] have "minIface a adjs n i" by blast
    then obtain x where "x \<in> set adjs" "fst x = (n, i)"
      by (auto simp: minIface_def eligible_def prod_eq_iff)
    then have "(n, i) \<in> fst ` set adjs" by force
    then show "map_of adjs kv \<noteq> None" unfolding kv by (simp add: map_of_eq_None_iff)
  qed
  from collectPeers_lookup [OF keys, of "[]"] obtain res where res:
    "collectPeers adjs ?nti [] = Inr res" "distinct (map fst res)"
    "\<forall>n. map_of res n = (case map_of ?nti n of None \<Rightarrow> None
                          | Some i \<Rightarrow> map_option peerSpec (map_of adjs (n, i)))"
    by auto
  have "map_of res n = None" if "\<forall>kv \<in> set adjs. \<not> eligible a n kv" for n
    using lk [of n] that res(3) by (auto split: option.splits)
  moreover have "map_of res n \<noteq> None" if "\<exists>kv \<in> set adjs. eligible a n kv" for n
  proof -
    from lk [of n] that obtain i where i: "map_of ?nti n = Some i" by auto
    then have "(n, i) \<in> set ?nti" by (rule map_of_SomeD)
    with keys obtain v where "map_of adjs (n, i) = Some v" by auto
    with i res(3) show ?thesis by simp
  qed
  moreover have "map_of res n = Some (peerSpec v)"
    if "((n, i), v) \<in> set adjs" "eligible a n ((n, i), v)"
       "\<forall>kv \<in> set adjs. eligible a n kv \<longrightarrow> i \<le> snd (fst kv)" for n i v
  proof -
    from that have "minIface a adjs n i" by (force simp: minIface_def)
    with lk [of n] have "map_of ?nti n = Some i" by blast
    moreover from that(1) assms have "map_of adjs (n, i) = Some v" by simp
    ultimately show ?thesis using res(3) by simp
  qed
  ultimately show ?thesis using res(1,2) unfolding getPeersFromAdjacencies_def by blast
qed

text \<open>On the example: node B is reached over \<open>eth1\<close> (the restarting \<open>eth0\<close> is
  skipped although its name is smaller), and node C, whose adjacency is in area 1, has
  no peer in area 0.\<close>

theorem getPeersFromAdjacencies_peers_witness:
  "distinct (map fst exampleAdjacencies) \<and>
   (\<exists>res. getPeersFromAdjacencies exampleAdjacencies ''0'' = Inr res \<and>
      distinct (map fst res) \<and>
      map_of res ''B'' = Some (examplePeerSpec ''eth1'') \<and> map_of res ''C'' = None)"
proof -
  have d: "distinct (map fst exampleAdjacencies)"
    by (simp add: exampleAdjacencies_def exampleAdjacencyValue_def)
  from getPeersFromAdjacencies_peers [OF d, of "''0''"] obtain res where res:
    "getPeersFromAdjacencies exampleAdjacencies ''0'' = Inr res" "distinct (map fst res)"
    "\<And>n. (\<forall>kv \<in> set exampleAdjacencies. \<not> eligible ''0'' n kv) \<longrightarrow> map_of res n = None"
    "\<And>n i v. ((n, i), v) \<in> set exampleAdjacencies \<and> eligible ''0'' n ((n, i), v) \<and>
        (\<forall>kv \<in> set exampleAdjacencies. eligible ''0'' n kv \<longrightarrow> i \<le> snd (fst kv))
        \<longrightarrow> map_of res n = Some (peerSpec v)"
    by blast
  have "map_of res ''C'' = None"
    using res(3) [of "''C''"]
    by (simp add: exampleAdjacencies_def exampleAdjacencyValue_def eligible_def)
  moreover have "map_of res ''B'' = Some (examplePeerSpec ''eth1'')"
    using res(4) [of "''B''" "''eth1''" "snd (exampleAdjacencyValue ''B'' ''eth1'' ''0'' False)"]
    by (simp add: exampleAdjacencies_def exampleAdjacencyValue_def eligible_def)
  ultimately show ?thesis using d res(1,2) by blast
qed

subsection \<open>Best prefix selection\<close>

lemma tuple_less_iff: "tuple_less a b \<longleftrightarrow> tupleVal a < tupleVal b"
  by (auto simp: tuple_less_def tupleVal_def word_sless_alt less_prod_def split: prod.splits)

lemma tupleVal_inj: "tupleVal a = tupleVal b \<longleftrightarrow> a = b"
  by (auto simp: tupleVal_def signed_word_eqI split: prod.splits)

lemma sint_INT32_MIN: "sint INT32_MIN = - (2 ^ 31)"
  by (simp add: INT32_MIN_def)

lemma sint32_lower: "- (2 ^ 31) \<le> sint (x :: int32)"
  using sint_ge [of x] by simp

lemma sint32_upper: "sint (x :: int32) < 2 ^ 31"
  using sint_lt [of x] by simp

lemma tupleVal_min_le: "tupleVal (INT32_MIN, INT32_MIN, INT32_MIN) \<le> tupleVal t"
proof (cases t)
  case (fields a b c)
  have "sint INT32_MIN \<le> sint a" "sint INT32_MIN \<le> sint b" "sint INT32_MIN \<le> sint c"
    using sint32_lower [of a] sint32_lower [of b] sint32_lower [of c]
    by (simp_all add: sint_INT32_MIN)
  then show ?thesis
    unfolding fields tupleVal_def by (auto simp: less_eq_prod_def)
qed

text \<open>The loop invariant: \<open>bestMetricsTuple\<close> bounds every tuple seen so far and,
  once an entry has been seen, is the tuple of one of them; \<open>bestKeys\<close> are the keys
  seen with exactly that tuple.\<close>

lemma bestMetrics_invariant:
  assumes "foldl (bestMetricsStep mr) ((INT32_MIN, INT32_MIN, INT32_MIN), {}) ps = (b, K)"
  shows "(\<forall>(k, w) \<in> set ps. tupleVal (metricsTupleOf (mr w)) \<le> tupleVal b)
       \<and> K = {k. \<exists>w. (k, w) \<in> set ps \<and> metricsTupleOf (mr w) = b}
       \<and> (ps \<noteq> [] \<longrightarrow> (\<exists>(k, w) \<in> set ps. metricsTupleOf (mr w) = b))
       \<and> (ps = [] \<longrightarrow> b = (INT32_MIN, INT32_MIN, INT32_MIN))"
  using assms
proof (induction ps arbitrary: b K rule: rev_induct)
  case Nil
  then show ?case by simp
next
  case (snoc x xs)
  obtain b0 K0 where
    st: "foldl (bestMetricsStep mr) ((INT32_MIN, INT32_MIN, INT32_MIN), {}) xs = (b0, K0)"
    by (cases "foldl (bestMetricsStep mr) ((INT32_MIN, INT32_MIN, INT32_MIN), {}) xs") auto
  note ih = snoc.IH [OF st]
  obtain key w where x: "x = (key, w)" by (cases x) auto
  let ?t = "metricsTupleOf (mr w)"
  have lower: "tupleVal b0 \<le> tupleVal ?t \<or> xs \<noteq> []"
    using ih tupleVal_min_le [of ?t] by (cases "xs = []") auto
  from snoc.prems st x
  have step: "bestMetricsStep mr (b0, K0) (key, w) = (b, K)" by simp
  consider (lt) "tupleVal ?t < tupleVal b0" | (gt) "tupleVal b0 < tupleVal ?t"
    | (eq) "?t = b0"
    using tupleVal_inj [of ?t b0] by fastforce
  then show ?case
  proof cases
    case lt
    with step have "b = b0" "K = K0"
      by (auto simp: bestMetricsStep_def tuple_less_iff Let_def split: if_splits)
    moreover from lt lower have "xs \<noteq> []" by auto
    moreover from lt have "?t \<noteq> b0" by auto
    ultimately show ?thesis using ih lt x by (auto simp: less_imp_le)
  next
    case gt
    with step have "b = ?t" "K = {key}"
      by (auto simp: bestMetricsStep_def tuple_less_iff Let_def split: if_splits)
    moreover have "\<forall>(k, w') \<in> set xs. tupleVal (metricsTupleOf (mr w')) < tupleVal ?t"
      using ih gt by (auto intro: le_less_trans)
    ultimately show ?thesis using x by (fastforce simp: less_imp_le)
  next
    case eq
    with step have "b = b0" "K = insert key K0"
      by (auto simp: bestMetricsStep_def tuple_less_iff Let_def split: if_splits)
    then show ?thesis using ih eq x by auto
  qed
qed

text \<open>The third component is the mathematical \<open>- distance\<close> for every distance other
  than the smallest 32-bit integer, where the product \<open>distance * -1\<close> overflows.\<close>

lemma tupleVal_metricsTupleOf:
  assumes "distance m \<noteq> INT32_MIN"
  shows "tupleVal (metricsTupleOf m) = specTuple m"
proof -
  have "sint (distance m) \<noteq> - (2 ^ 31)"
    using assms sint_INT32_MIN by (metis signed_word_eqI)
  then have "sint (- distance m) = - sint (distance m)"
    using sint32_lower [of "distance m"] sint32_upper [of "distance m"]
    by (simp add: sint_word_ariths signed_take_bit_int_eq_self)
  then show ?thesis by (simp add: tupleVal_def metricsTupleOf_def specTuple_def)
qed

text \<open>
  What the loop computes.  For every input map (an association list, in any iteration
  order), \<open>selectBestPrefixMetrics\<close> returns exactly the keys whose 32-bit tuple
  \<open>metricsTupleOf\<close>, with the wrapping product \<open>distance * -1\<close> as third component, is
  greatest in the lexicographic order among all entries; the result is not empty when
  the input is not.  This is the selection of the specification, by the tuple
  (path-preference, source-preference, -distance) over the integers, only when no
  distance is the smallest 32-bit integer.
\<close>

theorem selectBestPrefixMetrics_max:
  "selectBestPrefixMetrics mr ps =
     {k. \<exists>w. (k, w) \<in> set ps \<and>
        (\<forall>(k', w') \<in> set ps.
           tupleVal (metricsTupleOf (mr w')) \<le> tupleVal (metricsTupleOf (mr w)))}
   \<and> (ps \<noteq> [] \<longrightarrow> selectBestPrefixMetrics mr ps \<noteq> {})
   \<and> ((\<forall>(k, w) \<in> set ps. distance (mr w) \<noteq> INT32_MIN) \<longrightarrow>
        selectBestPrefixMetrics mr ps =
          {k. \<exists>w. (k, w) \<in> set ps \<and>
             (\<forall>(k', w') \<in> set ps. specTuple (mr w') \<le> specTuple (mr w))})"
proof -
  let ?best = "{k. \<exists>w. (k, w) \<in> set ps \<and>
        (\<forall>(k', w') \<in> set ps.
           tupleVal (metricsTupleOf (mr w')) \<le> tupleVal (metricsTupleOf (mr w)))}"
  obtain b K where
    st: "foldl (bestMetricsStep mr) ((INT32_MIN, INT32_MIN, INT32_MIN), {}) ps = (b, K)"
    by (cases "foldl (bestMetricsStep mr) ((INT32_MIN, INT32_MIN, INT32_MIN), {}) ps") auto
  note inv = bestMetrics_invariant [OF st]
  have res: "selectBestPrefixMetrics mr ps = K"
    by (simp add: selectBestPrefixMetrics_def st)
  have "K = ?best"
  proof (cases "ps = []")
    case True
    then show ?thesis using inv by simp
  next
    case False
    with inv obtain k0 w0 where w0: "(k0, w0) \<in> set ps" "metricsTupleOf (mr w0) = b" by auto
    show ?thesis
    proof (intro set_eqI iffI)
      fix k assume "k \<in> K"
      with inv obtain w where "(k, w) \<in> set ps" "metricsTupleOf (mr w) = b" by auto
      with inv show "k \<in> ?best" by auto
    next
      fix k assume "k \<in> ?best"
      then obtain w where w: "(k, w) \<in> set ps"
        "\<forall>(k', w') \<in> set ps.
           tupleVal (metricsTupleOf (mr w')) \<le> tupleVal (metricsTupleOf (mr w))"
        by auto
      from w(2) w0 have "tupleVal b \<le> tupleVal (metricsTupleOf (mr w))" by auto
      moreover from inv w(1) have "tupleVal (metricsTupleOf (mr w)) \<le> tupleVal b" by auto
      ultimately have "metricsTupleOf (mr w) = b" using tupleVal_inj by (metis antisym)
      with inv w(1) show "k \<in> K" by auto
    qed
  qed
  moreover have "K \<noteq> {}" if "ps \<noteq> []" using inv that by auto
  moreover have "?best = {k. \<exists>w. (k, w) \<in> set ps \<and>
             (\<forall>(k', w') \<in> set ps. specTuple (mr w') \<le> specTuple (mr w))}"
    if "\<forall>(k, w) \<in> set ps. distance (mr w) \<noteq> INT32_MIN"
  proof -
    from that have eq: "tupleVal (metricsTupleOf (mr w)) = specTuple (mr w)"
      if "(k, w) \<in> set ps" for k w
      using that tupleVal_metricsTupleOf by blast
    have "(\<forall>(k', w') \<in> set ps.
              tupleVal (metricsTupleOf (mr w')) \<le> tupleVal (metricsTupleOf (mr w)))
          \<longleftrightarrow> (\<forall>(k', w') \<in> set ps. specTuple (mr w') \<le> specTuple (mr w))"
      if "(k, w) \<in> set ps" for k w
    proof -
      have eq': "tupleVal (metricsTupleOf (mr (snd kw))) = specTuple (mr (snd kw))"
        if "kw \<in> set ps" for kw
        using eq [of "fst kw" "snd kw"] that by simp
      have "(\<forall>kw \<in> set ps. tupleVal (metricsTupleOf (mr (snd kw))) \<le> specTuple (mr w))
            \<longleftrightarrow> (\<forall>kw \<in> set ps. specTuple (mr (snd kw)) \<le> specTuple (mr w))"
        by (rule ball_cong) (simp_all add: eq')
      then show ?thesis using eq [OF that] by (simp add: case_prod_unfold)
    qed
    then show ?thesis by blast
  qed
  ultimately show ?thesis using res by simp
qed

text \<open>On the example, nodes B and C tie at the best tuple (1000, 100, -1); A has a
  larger distance and D a smaller path preference.\<close>

theorem selectBestPrefixMetrics_max_witness:
  "examplePrefixes \<noteq> [] \<and>
   list_all (\<lambda>kw. distance (metrics (snd kw)) \<noteq> INT32_MIN) examplePrefixes \<and>
   selectBestPrefixMetrics metrics examplePrefixes \<noteq> {} \<and>
   ''nodeB'' \<in> selectBestPrefixMetrics metrics examplePrefixes \<and>
   ''nodeC'' \<in> selectBestPrefixMetrics metrics examplePrefixes \<and>
   ''nodeA'' \<notin> selectBestPrefixMetrics metrics examplePrefixes \<and>
   ''nodeD'' \<notin> selectBestPrefixMetrics metrics examplePrefixes"
proof -
  note max = selectBestPrefixMetrics_max [of metrics examplePrefixes]
  have ne: "examplePrefixes \<noteq> []" by (simp add: examplePrefixes_def)
  with max have nonempty: "selectBestPrefixMetrics metrics examplePrefixes \<noteq> {}" by blast
  have nomin: "list_all (\<lambda>kw. distance (metrics (snd kw)) \<noteq> INT32_MIN) examplePrefixes"
    by (simp add: examplePrefixes_def INT32_MIN_def)
  then have "\<forall>(k, w) \<in> set examplePrefixes. distance (metrics w) \<noteq> INT32_MIN"
    by (simp add: list_all_iff case_prod_unfold)
  with max have mem: "k \<in> selectBestPrefixMetrics metrics examplePrefixes \<longleftrightarrow>
        (\<exists>w. (k, w) \<in> set examplePrefixes \<and>
        (\<forall>(k', w') \<in> set examplePrefixes. specTuple (metrics w') \<le> specTuple (metrics w)))"
    for k
    by blast
  have "''nodeB'' \<in> selectBestPrefixMetrics metrics examplePrefixes"
    unfolding mem by (simp add: examplePrefixes_def specTuple_def less_eq_prod_def)
  moreover have "''nodeC'' \<in> selectBestPrefixMetrics metrics examplePrefixes"
    unfolding mem by (simp add: examplePrefixes_def specTuple_def less_eq_prod_def)
  moreover have "''nodeA'' \<notin> selectBestPrefixMetrics metrics examplePrefixes"
    unfolding mem by (simp add: examplePrefixes_def specTuple_def less_eq_prod_def)
  moreover have "''nodeD'' \<notin> selectBestPrefixMetrics metrics examplePrefixes"
    unfolding mem by (simp add: examplePrefixes_def specTuple_def less_eq_prod_def)
  ultimately show ?thesis using ne nonempty nomin by blast
qed

lemma specBestKeys_eq:
  "specBestKeys mr ps =
     {k. \<exists>w. (k, w) \<in> set ps \<and> (\<forall>(k', w') \<in> set ps. specTuple (mr w') \<le> specTuple (mr w))}"
  by (force simp: specBestKeys_def list_all_iff case_prod_unfold)

text \<open>Away from the overflow the code selects what the specification says.\<close>

lemma selectBestPrefixMetrics_spec:
  assumes "\<forall>(k, w) \<in> set ps. distance (mr w) \<noteq> INT32_MIN"
  shows "selectBestPrefixMetrics mr ps = specBestKeys mr ps"
  using selectBestPrefixMetrics_max [of mr ps] assms unfolding specBestKeys_eq by blast

text \<open>
  Claim C3 fails on the code where \<open>distance * -1\<close> overflows.  On the map
  \<open>overflowPrefixes\<close>, \<open>nodeA\<close> and \<open>nodeB\<close> have the same path and source preference,
  and \<open>nodeA\<close> has the lower distance, the smallest 32-bit integer; its tuple
  (path-preference, source-preference, -distance) is (1, 1, 2147483648), the
  lexicographic maximum, so the claim selects exactly \<open>nodeA\<close>.  The loop builds the
  32-bit tuple (1, 1, -2147483648) for \<open>nodeA\<close>, smaller than the tuple (1, 1, 0) of
  \<open>nodeB\<close>, and returns exactly \<open>nodeB\<close>, in either iteration order of the map: the entry
  with the higher distance, against the comment \<open>prefer-lower\<close> on that component.
\<close>

theorem selectBestPrefixMetrics_overflow:
  "selectBestPrefixMetrics metrics overflowPrefixes = {''nodeB''}
   \<and> selectBestPrefixMetrics metrics (rev overflowPrefixes) = {''nodeB''}
   \<and> specBestKeys metrics overflowPrefixes = {''nodeA''}
   \<and> map (\<lambda>kw. tupleVal (metricsTupleOf (metrics (snd kw)))) overflowPrefixes
       = [(1, 1, - 2147483648), (1, 1, 0)]
   \<and> map (\<lambda>kw. specTuple (metrics (snd kw))) overflowPrefixes
       = [(1, 1, 2147483648), (1, 1, 0)]"
  by (simp add: selectBestPrefixMetrics_def bestMetricsStep_def tuple_less_def metricsTupleOf_def
      specBestKeys_def specTuple_def tupleVal_def overflowPrefixes_def INT32_MIN_def
      word_sless_alt less_eq_prod_def)

subsection \<open>MPLS next-hop selection\<close>

text \<open>
  Claim C4.  For every list of next-hops, \<open>selectMplsNextHops\<close> returns next-hops of the
  input that all carry one and the same MPLS action code; and whenever a PHP next-hop is
  present, it returns exactly the PHP next-hops, so no SWAP next-hop is left.
\<close>

theorem selectMplsNextHops_php_preferred:
  "set (selectMplsNextHops nhs) \<subseteq> set nhs
   \<and> (\<exists>code. \<forall>nh \<in> set (selectMplsNextHops nhs). hasAction code nh)
   \<and> (list_ex (hasAction PHP) nhs \<longrightarrow>
        selectMplsNextHops nhs = filter (hasAction PHP) nhs
        \<and> (\<forall>nh \<in> set (selectMplsNextHops nhs). \<not> hasAction SWAP nh))"
proof -
  have "\<exists>code. \<forall>nh \<in> set (selectMplsNextHops nhs). hasAction code nh"
  proof (cases "list_ex (hasAction PHP) nhs")
    case True
    then have "\<forall>nh \<in> set (selectMplsNextHops nhs). hasAction PHP nh"
      by (simp add: selectMplsNextHops_def)
    then show ?thesis ..
  next
    case False
    then have "\<forall>nh \<in> set (selectMplsNextHops nhs). hasAction SWAP nh"
      by (simp add: selectMplsNextHops_def)
    then show ?thesis ..
  qed
  moreover have "set (selectMplsNextHops nhs) \<subseteq> set nhs"
    by (auto simp: selectMplsNextHops_def)
  moreover have "\<forall>nh \<in> set (selectMplsNextHops nhs). \<not> hasAction SWAP nh"
    if "list_ex (hasAction PHP) nhs"
    using that by (auto simp: selectMplsNextHops_def hasAction_def split: option.splits)
  ultimately show ?thesis by (simp add: selectMplsNextHops_def)
qed

text \<open>The scenario of the specification: of \<open>{PHP via N1, SWAP(label) via N2}\<close> only the
  PHP next-hop is kept.\<close>

theorem selectMplsNextHops_php_preferred_witness:
  "list_ex (hasAction PHP) [phpNextHop, swapNextHop] \<and>
   selectMplsNextHops [phpNextHop, swapNextHop] = [phpNextHop]"
  using selectMplsNextHops_php_preferred [of "[phpNextHop, swapNextHop]"]
  by (simp add: hasAction_def phpNextHop_def swapNextHop_def)

section \<open>Properties of the link monitor\<close>

lemmas example_defs =
  runningLinkMonitor_def startingLinkMonitor_def newLinkMonitor_def initialState_def
  defaultLinkMonitorState_def exampleConfig_def exampleInterface_def
  exampleAreaConfiguration_def neighborUp_def exampleNeighbor_def

subsection \<open>The advertised metric\<close>







text \<open>Advertising peers changes the peer table and pushes at most a peer update.\<close>

lemma advertiseKvStorePeers_fields:
  assumes "advertiseKvStorePeers a up lm = Inr lm'"
  shows "adjacencies lm' = adjacencies lm" "state lm' = state lm" "config lm' = config lm"
    "interfaces lm' = interfaces lm"
    "adjHoldTimerScheduled lm' = adjHoldTimerScheduled lm"
    "advertiseAdjacenciesThrottledActive lm' = advertiseAdjacenciesThrottledActive lm"
    "filter isAdvertisement (effects lm') = filter isAdvertisement (effects lm)"
  using assms
  by (auto simp: advertiseKvStorePeers_def Let_def split: sum.splits prod.splits if_splits)




text \<open>A round-trip time change stores the metric of the new measurement.\<close>

lemma neighborRttChangeEvent_metric:
  assumes "map_of (adjacencies lm) (nodeName (info ev), localIfName (info ev)) = Some v"
  shows "map_of (adjacencies (neighborRttChangeEvent ev lm))
           (nodeName (info ev), localIfName (info ev))
         = Some (v\<lparr>adjacency := (adjacency v)\<lparr>Adjacency.metric := getRttMetric (rttUs (info ev)),
                                                 rtt := ucast (rttUs (info ev))\<rparr>\<rparr>)"
  using assms
  by (simp add: neighborRttChangeEvent_def Let_def advertiseAdjacenciesThrottled_def
        update_conv')





subsection \<open>Commands that name an unknown interface or adjacency\<close>

text \<open>
  Claim C5, as stated, fails: a command that names an unknown interface does not return
  an error.  \<open>setLinkMetric\<close> for the interface \<open>eth9\<close>, which the link monitor does not
  know, completes the future of the caller with \<open>p.setValue()\<close>, as a successful
  command does.
\<close>

theorem unknown_interface_counterexample:
  "map_of (interfaces runningLinkMonitor) ''eth9'' = None \<and>
   effects (setLinkMetric ''eth9'' (Some 5) runningLinkMonitor) = [SetValue]"
  by (simp add: setLinkMetric_def setValue_def example_defs)

text \<open>
  Claim C5, amended.  A call of \<open>setInterfaceOverload\<close> or \<open>setLinkMetric\<close> that names
  an interface absent from the tracked interfaces, and a call of \<open>setAdjacencyMetric\<close>
  that names a (node, interface) pair absent from the adjacencies, answers the caller
  with a value and changes nothing else: the link monitor state with its overloaded
  links and overrides is the same, the adjacency throttle is not requested, and
  nothing is advertised or stored.
\<close>

theorem unknown_target_unchanged:
  "(map_of (interfaces lm) ifn = None \<longrightarrow>
      setInterfaceOverload ifn flag lm = lm\<lparr>effects := effects lm @ [SetValue]\<rparr>
      \<and> setLinkMetric ifn m lm = lm\<lparr>effects := effects lm @ [SetValue]\<rparr>)
   \<and> (map_of (adjacencies lm) (node, ifn) = None \<longrightarrow>
      setAdjacencyMetric ifn node m lm = lm\<lparr>effects := effects lm @ [SetValue]\<rparr>)"
  by (simp add: setInterfaceOverload_def setLinkMetric_def setAdjacencyMetric_def setValue_def)

theorem unknown_target_unchanged_witness:
  "map_of (interfaces runningLinkMonitor) ''eth9'' = None \<and>
   map_of (adjacencies runningLinkMonitor) (''Z'', ''eth9'') = None \<and>
   state (setInterfaceOverload ''eth9'' True runningLinkMonitor) = state runningLinkMonitor \<and>
   state (setLinkMetric ''eth9'' (Some 5) runningLinkMonitor) = state runningLinkMonitor \<and>
   state (setAdjacencyMetric ''eth9'' ''Z'' (Some 5) runningLinkMonitor)
     = state runningLinkMonitor \<and>
   \<not> advertiseAdjacenciesThrottledActive (setLinkMetric ''eth9'' (Some 5) runningLinkMonitor)"
proof -
  have i: "map_of (interfaces runningLinkMonitor) ''eth9'' = None"
    and a: "map_of (adjacencies runningLinkMonitor) (''Z'', ''eth9'') = None"
    and t: "\<not> advertiseAdjacenciesThrottledActive runningLinkMonitor"
    by (simp_all add: example_defs)
  from unknown_target_unchanged
         [of runningLinkMonitor "''eth9''" True "Some 5" "''Z''"] i a t
  show ?thesis by simp
qed

subsection \<open>The initial state\<close>

text \<open>
  Claim C9, as stated, fails in its second half: a persisted state that is loaded does
  not become the initial state when \<open>overrideDrainState\<close> is set and its overload bit
  differs from \<open>assumeDrained\<close>.
\<close>

theorem initial_state_counterexample:
  "state (newLinkMonitor exampleConfig (Some defaultLinkMonitorState) True True)
     \<noteq> defaultLinkMonitorState"
  by (simp add: newLinkMonitor_def initialState_def defaultLinkMonitorState_def)

text \<open>
  Claim C9, amended.  When no persisted state can be loaded, the initial state has
  \<open>isOverloaded\<close> equal to \<open>assumeDrained\<close> (whatever \<open>overrideDrainState\<close> is).  When a
  persisted state is loaded and \<open>overrideDrainState\<close> is false, the loaded state is the
  initial state.
\<close>

theorem initial_state:
  "LinkMonitorState.isOverloaded
     (state (newLinkMonitor cfg None assumeDrained overrideDrainState)) = assumeDrained
   \<and> state (newLinkMonitor cfg (Some s) assumeDrained False) = s"
  by (simp add: newLinkMonitor_def initialState_def Let_def)

text \<open>
  Claim C10.  With \<open>overrideDrainState\<close> true, the initial \<open>isOverloaded\<close> is
  \<open>assumeDrained\<close>, whether or not a state was loaded; a loaded state is kept in all its
  other fields.
\<close>

theorem override_drain_state:
  "LinkMonitorState.isOverloaded
     (state (newLinkMonitor cfg loaded assumeDrained True)) = assumeDrained
   \<and> state (newLinkMonitor cfg (Some s) assumeDrained True)
       = s\<lparr>LinkMonitorState.isOverloaded := assumeDrained\<rparr>"
  by (simp add: newLinkMonitor_def initialState_def Let_def)

subsection \<open>Advertising while the hold timer is scheduled, and afterwards\<close>

lemma advertiseAdjacencies_area_held:
  "adjHoldTimerScheduled lm \<Longrightarrow> advertiseAdjacencies_area a lm = lm"
  by (simp add: advertiseAdjacencies_area_def)

lemma advertiseAdjacencies_fold_held:
  "adjHoldTimerScheduled lm \<Longrightarrow>
     foldl (\<lambda>l ac. advertiseAdjacencies_area (fst ac) l) lm xs = lm"
  by (induction xs) (simp_all add: advertiseAdjacencies_area_held)

lemma advertiseAdjacencies_held:
  "adjHoldTimerScheduled lm \<Longrightarrow> advertiseAdjacencies lm = lm"
  by (simp add: advertiseAdjacencies_def advertiseAdjacencies_fold_held)

lemma advertiseRedistAddrs_held:
  "adjHoldTimerScheduled lm \<Longrightarrow> advertiseRedistAddrs lm = lm"
  by (simp add: advertiseRedistAddrs_def)

lemma adjAdvertisement_update:
  "adjAdvertisement (lm\<lparr>advertiseAdjacenciesThrottledActive := b\<rparr>) a = adjAdvertisement lm a"
  "adjAdvertisement (lm\<lparr>effects := es\<rparr>) a = adjAdvertisement lm a"
  by (simp_all add: adjAdvertisement_def buildAdjacencyDatabase_def)

lemma advertiseAdjacencies_area_running:
  "\<not> adjHoldTimerScheduled lm \<Longrightarrow>
     advertiseAdjacencies_area a lm =
       lm\<lparr>advertiseAdjacenciesThrottledActive := False,
          effects := effects lm @ adjAdvertisement lm a\<rparr>"
  by (simp add: advertiseAdjacencies_area_def Let_def adjAdvertisement_update)

lemma advertiseAdjacencies_fold_running:
  "\<not> adjHoldTimerScheduled lm \<Longrightarrow>
     foldl (\<lambda>l ac. advertiseAdjacencies_area (fst ac) l) lm xs =
       lm\<lparr>advertiseAdjacenciesThrottledActive := (xs = [] \<and> advertiseAdjacenciesThrottledActive lm),
          effects := effects lm @ concat (map (\<lambda>ac. adjAdvertisement lm (fst ac)) xs)\<rparr>"
proof (induction xs arbitrary: lm)
  case Nil
  then show ?case by simp
next
  case (Cons x xs)
  let ?lm1 = "lm\<lparr>advertiseAdjacenciesThrottledActive := False,
          effects := effects lm @ adjAdvertisement lm (fst x)\<rparr>"
  have adv: "adjAdvertisement ?lm1 a = adjAdvertisement lm a" for a
    by (simp add: adjAdvertisement_update)
  have "\<not> adjHoldTimerScheduled ?lm1" using Cons.prems by simp
  from Cons.IH [OF this] Cons.prems show ?case
    by (simp add: advertiseAdjacencies_area_running adv)
qed

lemma advertiseAdjacencies_running:
  "\<not> adjHoldTimerScheduled lm \<Longrightarrow>
     advertiseAdjacencies lm =
       lm\<lparr>advertiseAdjacenciesThrottledActive :=
            (areas (config lm) = [] \<and> advertiseAdjacenciesThrottledActive lm),
          effects := effects lm @
            concat (map (\<lambda>ac. adjAdvertisement lm (fst ac)) (areas (config lm)))\<rparr>"
  by (simp add: advertiseAdjacencies_def advertiseAdjacencies_fold_running)



lemma advertiseInterfaces_fields:
  "adjHoldTimerScheduled (advertiseInterfaces lm) = adjHoldTimerScheduled lm"
  "filter isAdvertisement (effects (advertiseInterfaces lm)) = filter isAdvertisement (effects lm)"
  by (simp_all add: advertiseInterfaces_def Let_def)

lemma advertiseIfaceAddr_held:
  assumes "adjHoldTimerScheduled lm"
  shows "adjHoldTimerScheduled (advertiseIfaceAddr lm)"
    "filter isAdvertisement (effects (advertiseIfaceAddr lm)) = filter isAdvertisement (effects lm)"
  using assms
  by (simp_all add: advertiseIfaceAddr_def Let_def advertiseRedistAddrs_held advertiseInterfaces_fields)

lemma neighborUpEvent_held:
  assumes "adjHoldTimerScheduled lm" "neighborUpEvent now ev lm = Inr lm'"
  shows "adjHoldTimerScheduled lm' \<and>
         filter isAdvertisement (effects lm') = filter isAdvertisement (effects lm)"
proof -
  from assms(2) obtain lm2 where
    kv: "advertiseKvStorePeers (SparkNeighbor.area (info ev))
       [(nodeName (info ev), peerSpec (newAdjacencyValue now (info ev) lm))]
       (lm\<lparr>adjacencies :=
            AList.update (nodeName (info ev), localIfName (info ev))
              (newAdjacencyValue now (info ev) lm) (adjacencies lm)\<rparr>) = Inr lm2"
    and lm': "lm' = advertiseAdjacenciesThrottled lm2"
    by (auto simp: neighborUpEvent_def Let_def split: sum.splits if_splits)
  from advertiseKvStorePeers_fields(5,7) [OF kv] assms(1) lm' show ?thesis
    by (simp add: advertiseAdjacenciesThrottled_def)
qed

lemma neighborDownEvent_held:
  assumes "adjHoldTimerScheduled lm" "neighborDownEvent ev lm = Inr lm'"
  shows "adjHoldTimerScheduled lm' \<and>
         filter isAdvertisement (effects lm') = filter isAdvertisement (effects lm)"
proof -
  from assms(2) obtain lm2 where
    kv: "advertiseKvStorePeers (SparkNeighbor.area (info ev)) []
       (lm\<lparr>adjacencies :=
            AList.delete (nodeName (info ev), localIfName (info ev)) (adjacencies lm)\<rparr>) = Inr lm2"
    and lm': "lm' = advertiseAdjacencies_area (SparkNeighbor.area (info ev)) lm2"
    by (auto simp: neighborDownEvent_def Let_def split: sum.splits)
  from advertiseKvStorePeers_fields(5,7) [OF kv] assms(1) lm' show ?thesis
    by (simp add: advertiseAdjacencies_area_held)
qed

lemma neighborRestartingEvent_held:
  assumes "adjHoldTimerScheduled lm" "neighborRestartingEvent ev lm = Inr lm'"
  shows "adjHoldTimerScheduled lm' \<and>
         filter isAdvertisement (effects lm') = filter isAdvertisement (effects lm)"
proof (cases "map_of (adjacencies lm) (nodeName (info ev), localIfName (info ev))")
  case None
  with assms(2) have "advertiseKvStorePeers (SparkNeighbor.area (info ev)) [] lm = Inr lm'"
    by (simp add: neighborRestartingEvent_def Let_def)
  from advertiseKvStorePeers_fields(5,7) [OF this] assms(1) show ?thesis by simp
next
  case (Some v)
  with assms(2) have "advertiseKvStorePeers (SparkNeighbor.area (info ev)) []
      (lm\<lparr>adjacencies :=
           AList.update (nodeName (info ev), localIfName (info ev)) (v\<lparr>isRestarting := True\<rparr>)
             (adjacencies lm)\<rparr>) = Inr lm'"
    by (simp add: neighborRestartingEvent_def Let_def)
  from advertiseKvStorePeers_fields(5,7) [OF this] assms(1) show ?thesis by simp
qed

lemma neighborRttChangeEvent_held:
  "adjHoldTimerScheduled (neighborRttChangeEvent ev lm) = adjHoldTimerScheduled lm"
  "effects (neighborRttChangeEvent ev lm) = effects lm"
  by (simp_all add: neighborRttChangeEvent_def Let_def advertiseAdjacenciesThrottled_def
        split: option.splits)

lemma processNeighborEvent_held:
  assumes "adjHoldTimerScheduled lm" "processNeighborEvent now ev lm = Inr lm'"
  shows "adjHoldTimerScheduled lm' \<and>
         filter isAdvertisement (effects lm') = filter isAdvertisement (effects lm)"
proof (cases "eventType ev")
  case NEIGHBOR_UP
  with assms neighborUpEvent_held [of lm now ev lm'] show ?thesis
    by (simp add: processNeighborEvent_def)
next
  case NEIGHBOR_RESTARTED
  with assms neighborUpEvent_held [of lm now ev lm'] show ?thesis
    by (simp add: processNeighborEvent_def)
next
  case NEIGHBOR_DOWN
  with assms neighborDownEvent_held [of lm ev lm'] show ?thesis
    by (simp add: processNeighborEvent_def)
next
  case NEIGHBOR_RESTARTING
  with assms neighborRestartingEvent_held [of lm ev lm'] show ?thesis
    by (simp add: processNeighborEvent_def)
next
  case NEIGHBOR_RTT_CHANGE
  with assms show ?thesis
    by (auto simp: processNeighborEvent_def neighborRttChangeEvent_held split: if_splits)
qed


lemma setNodeOverload_held:
  assumes "adjHoldTimerScheduled lm"
  shows "setNodeOverload flag lm =
           lm\<lparr>state := (state lm)\<lparr>LinkMonitorState.isOverloaded := flag\<rparr>,
              effects := effects lm @ [SetValue]\<rparr>"
  using assms
  by (cases "LinkMonitorState.isOverloaded (state lm) = flag")
     (auto simp: setNodeOverload_def setValue_def advertiseAdjacencies_held)

lemma throttled_command_effects:
  "effects (setInterfaceOverload i flag lm) = effects lm @ [SetValue]"
  "effects (setLinkMetric i m lm) = effects lm @ [SetValue]"
  "effects (setAdjacencyMetric i n m lm) = effects lm @ [SetValue]"
  "adjHoldTimerScheduled (setInterfaceOverload i flag lm) = adjHoldTimerScheduled lm"
  "adjHoldTimerScheduled (setLinkMetric i m lm) = adjHoldTimerScheduled lm"
  "adjHoldTimerScheduled (setAdjacencyMetric i n m lm) = adjHoldTimerScheduled lm"
  by (simp_all add: setInterfaceOverload_def setLinkMetric_def setAdjacencyMetric_def
        setValue_def advertiseAdjacenciesThrottled_def Let_def)

lemma step_held:
  assumes "adjHoldTimerScheduled lm" "e \<noteq> AdjHoldTimerExpired" "step e lm = Inr lm'"
  shows "adjHoldTimerScheduled lm' \<and>
         filter isAdvertisement (effects lm') = filter isAdvertisement (effects lm)"
proof (cases e)
  case AdjHoldTimerExpired
  with assms show ?thesis by simp
next
  case AdvertiseAdjacenciesThrottledFired
  with assms show ?thesis by (auto simp: advertiseAdjacencies_held split: if_splits)
next
  case AdvertiseIfaceAddrThrottledFired
  with assms advertiseIfaceAddr_held [of "lm\<lparr>advertiseIfaceAddrThrottledActive := False\<rparr>"]
  show ?thesis by auto
next
  case AdvertiseIfaceAddrTimerFired
  with assms advertiseIfaceAddr_held [of "lm\<lparr>advertiseIfaceAddrTimerScheduled := False\<rparr>"]
  show ?thesis by auto
next
  case (InterfacesUpdated ifs)
  with assms show ?thesis by auto
next
  case (NeighborEvent now ev)
  with assms processNeighborEvent_held [of lm now ev lm'] show ?thesis by simp
next
  case (NodeLabelCallback newVal)
  with assms show ?thesis by (auto simp: advertiseAdjacencies_held split: if_splits)
next
  case (SetNodeOverload flag)
  with assms show ?thesis by (auto simp: setNodeOverload_held)
next
  case (SetInterfaceOverload i flag)
  with assms show ?thesis by (auto simp: throttled_command_effects)
next
  case (SetLinkMetric i m)
  with assms show ?thesis by (auto simp: throttled_command_effects)
next
  case (SetAdjacencyMetric i n m)
  with assms show ?thesis by (auto simp: throttled_command_effects)
qed

lemma run_held:
  assumes "adjHoldTimerScheduled lm" "AdjHoldTimerExpired \<notin> set evs" "run lm evs = Inr lm'"
  shows "adjHoldTimerScheduled lm' \<and>
         filter isAdvertisement (effects lm') = filter isAdvertisement (effects lm)"
  using assms
proof (induction evs arbitrary: lm)
  case Nil
  then show ?case by simp
next
  case (Cons e evs)
  from Cons.prems obtain lm1 where s: "step e lm = Inr lm1" and r: "run lm1 evs = Inr lm'"
    by (auto split: sum.splits)
  from Cons.prems have "e \<noteq> AdjHoldTimerExpired" by auto
  from step_held [OF Cons.prems(1) this s] Cons.IH [of lm1] r Cons.prems(2)
  show ?case by auto
qed

lemma redistPrefix_update:
  "redistPrefix (lm\<lparr>advertiseAdjacenciesThrottledActive := b\<rparr>) = redistPrefix lm"
  "redistPrefix (lm\<lparr>effects := es\<rparr>) = redistPrefix lm"
  "redistPrefix (lm\<lparr>adjHoldTimerScheduled := h\<rparr>) = redistPrefix lm"
  by (rule ext, rule ext, simp add: redistPrefix_def)+

lemma redistIfaceStep_update:
  "redistIfaceStep (lm\<lparr>advertiseAdjacenciesThrottledActive := b\<rparr>) = redistIfaceStep lm"
  "redistIfaceStep (lm\<lparr>effects := es\<rparr>) = redistIfaceStep lm"
  "redistIfaceStep (lm\<lparr>adjHoldTimerScheduled := h\<rparr>) = redistIfaceStep lm"
  by (rule ext, rule ext, simp add: redistIfaceStep_def redistPrefix_update)+

lemma redistAdvertisement_update:
  "redistAdvertisement (lm\<lparr>advertiseAdjacenciesThrottledActive := b\<rparr>) = redistAdvertisement lm"
  "redistAdvertisement (lm\<lparr>effects := es\<rparr>) = redistAdvertisement lm"
  "redistAdvertisement (lm\<lparr>adjHoldTimerScheduled := h\<rparr>) = redistAdvertisement lm"
  by (simp_all add: redistAdvertisement_def redistIfaceStep_update)

lemma adjAdvertisement_hold_update:
  "adjAdvertisement (lm\<lparr>adjHoldTimerScheduled := h\<rparr>) a = adjAdvertisement lm a"
  by (simp add: adjAdvertisement_def buildAdjacencyDatabase_def)

lemma hold_timer_expiry:
  assumes "adjHoldTimerScheduled lm"
  shows "step AdjHoldTimerExpired lm =
     Inr (lm\<lparr>adjHoldTimerScheduled := False,
             advertiseAdjacenciesThrottledActive :=
               (areas (config lm) = [] \<and> advertiseAdjacenciesThrottledActive lm),
             effects := effects lm @
               concat (map (\<lambda>ac. adjAdvertisement lm (fst ac)) (areas (config lm)))
               @ redistAdvertisement lm\<rparr>)"
  using assms
  by (simp add: advertiseAdjacencies_running advertiseRedistAddrs_def
        adjAdvertisement_hold_update redistAdvertisement_update)

lemma throttle_fired:
  assumes "advertiseAdjacenciesThrottledActive lm" "\<not> adjHoldTimerScheduled lm"
  shows "step AdvertiseAdjacenciesThrottledFired lm =
     Inr (lm\<lparr>advertiseAdjacenciesThrottledActive := False,
             effects := effects lm @
               concat (map (\<lambda>ac. adjAdvertisement lm (fst ac)) (areas (config lm)))\<rparr>)"
  using assms
  by (simp add: advertiseAdjacencies_running adjAdvertisement_update)

lemma setNodeOverload_running:
  assumes "LinkMonitorState.isOverloaded (state lm) \<noteq> flag" "\<not> adjHoldTimerScheduled lm"
  shows "setNodeOverload flag lm =
     (let lm1 = lm\<lparr>state := (state lm)\<lparr>LinkMonitorState.isOverloaded := flag\<rparr>\<rparr>
      in lm1\<lparr>advertiseAdjacenciesThrottledActive :=
               (areas (config lm) = [] \<and> advertiseAdjacenciesThrottledActive lm),
             effects := effects lm @
               concat (map (\<lambda>ac. adjAdvertisement lm1 (fst ac)) (areas (config lm)))
               @ [SetValue]\<rparr>)"
  using assms
  by (simp add: setNodeOverload_def setValue_def advertiseAdjacencies_running Let_def)

lemma throttled_command_state:
  "state (setInterfaceOverload i flag lm) \<noteq> state lm \<Longrightarrow>
     advertiseAdjacenciesThrottledActive (setInterfaceOverload i flag lm)"
  "state (setLinkMetric i m lm) \<noteq> state lm \<Longrightarrow>
     advertiseAdjacenciesThrottledActive (setLinkMetric i m lm)"
  "state (setAdjacencyMetric i n m lm) \<noteq> state lm \<Longrightarrow>
     advertiseAdjacenciesThrottledActive (setAdjacencyMetric i n m lm)"
  by (auto simp: setInterfaceOverload_def setLinkMetric_def setAdjacencyMetric_def
        setValue_def advertiseAdjacenciesThrottled_def Let_def split: if_splits)

lemma concat_adjAdvertisement_last:
  assumes "xs \<noteq> []"
  shows "\<exists>pre. concat (map (\<lambda>ac. adjAdvertisement lm (fst ac)) xs) =
           pre @ [StoreThriftObj kConfigKey (state lm)]"
  using assms
proof (induction xs rule: rev_induct)
  case Nil
  then show ?case by simp
next
  case (snoc x xs)
  show ?case by (simp add: adjAdvertisement_def)
qed


text \<open>
  Claim C8.  While the hold timer is scheduled, a call of \<open>advertiseAdjacencies\<close> (for
  one area or for all) or of \<open>advertiseRedistAddrs\<close> changes nothing: no key is written
  to the KvStore and no prefix update is pushed.  Whatever the link monitor processes
  in that window (neighbor events, interface updates, throttle and timer callbacks,
  label allocation, operator commands), as long as the hold timer has not expired the
  timer stays scheduled and no advertisement is published.  When the timer expires,
  the adjacency database of every area is written and the redistributed addresses of
  every area are pushed.
\<close>

theorem hold_timer_defers_advertisement:
  assumes "adjHoldTimerScheduled lm"
  shows "advertiseAdjacencies_area a lm = lm \<and> advertiseAdjacencies lm = lm
     \<and> advertiseRedistAddrs lm = lm
     \<and> (AdjHoldTimerExpired \<notin> set evs \<and> run lm evs = Inr lm' \<longrightarrow>
          adjHoldTimerScheduled lm' \<and>
          filter isAdvertisement (effects lm') = filter isAdvertisement (effects lm))
     \<and> (\<exists>lm''. step AdjHoldTimerExpired lm = Inr lm'' \<and> \<not> adjHoldTimerScheduled lm'' \<and>
          effects lm'' = effects lm @
            concat (map (\<lambda>ac. adjAdvertisement lm (fst ac)) (areas (config lm)))
            @ redistAdvertisement lm)"
  using assms advertiseAdjacencies_area_held [of lm a] advertiseAdjacencies_held [of lm]
    advertiseRedistAddrs_held [of lm] run_held [of lm evs lm'] hold_timer_expiry [of lm]
  by simp

text \<open>The start-up events are processed without failure.\<close>

lemma startup_ok: "\<exists>lm'. run startingLinkMonitor startupEvents = Inr lm'"
  by (simp add: startupEvents_def example_defs advertiseIfaceAddr_def Let_def
        advertiseInterfaces_def advertiseRedistAddrs_def getRetryTimeOnUnstableInterfaces_def
        processNeighborEvent_def neighborUpEvent_def neighborDownEvent_def
        repUrl_def peerAddress_def advertiseKvStorePeers_def
        getPeersFromAdjacencies_def neighborToIfaceStep_def
        emplace_def addPeerStep_def newAdjacencyValue_def createPeerSpec_def
        advertiseAdjacenciesThrottled_def setNodeOverload_def setValue_def
        advertiseAdjacencies_def advertiseAdjacencies_area_def setLinkMetric_def
        anyAreaShouldDiscoverOnIface_def
      split: sum.splits prod.splits)

text \<open>On the example: after the start-up events nothing has been advertised and the
  timer is still scheduled; its expiry advertises.\<close>

theorem hold_timer_defers_advertisement_witness:
  "adjHoldTimerScheduled startingLinkMonitor \<and> AdjHoldTimerExpired \<notin> set startupEvents \<and>
   \<not> isl (run startingLinkMonitor startupEvents) \<and>
   adjHoldTimerScheduled (projr (run startingLinkMonitor startupEvents)) \<and>
   filter isAdvertisement (effects (projr (run startingLinkMonitor startupEvents))) = [] \<and>
   \<not> isl (step AdjHoldTimerExpired startingLinkMonitor) \<and>
   filter isAdvertisement (effects (projr (step AdjHoldTimerExpired startingLinkMonitor))) \<noteq> []"
proof -
  have h: "adjHoldTimerScheduled startingLinkMonitor" by (simp add: example_defs)
  have e: "AdjHoldTimerExpired \<notin> set startupEvents" by (simp add: startupEvents_def)
  obtain lm' where ok: "run startingLinkMonitor startupEvents = Inr lm'"
    using startup_ok by blast
  note t = hold_timer_defers_advertisement [OF h, of "''0''" startupEvents lm']
  from t e ok have "adjHoldTimerScheduled lm'"
    "filter isAdvertisement (effects lm') = filter isAdvertisement (effects startingLinkMonitor)"
    by simp_all
  moreover have "effects startingLinkMonitor = []" by (simp add: example_defs)
  moreover from t obtain lm'' where
    "step AdjHoldTimerExpired startingLinkMonitor = Inr lm''"
    "effects lm'' = effects startingLinkMonitor @
            concat (map (\<lambda>ac. adjAdvertisement startingLinkMonitor (fst ac))
                      (areas (config startingLinkMonitor)))
            @ redistAdvertisement startingLinkMonitor"
    by blast
  moreover have "filter isAdvertisement
      (concat (map (\<lambda>ac. adjAdvertisement startingLinkMonitor (fst ac))
                      (areas (config startingLinkMonitor)))) \<noteq> []"
    by (simp add: example_defs adjAdvertisement_def)
  ultimately show ?thesis using h e ok by simp
qed


subsection \<open>Drain commands: re-advertisement and persistence\<close>

text \<open>
  Claim C6, as stated, fails: while the hold timer is scheduled, \<open>setNodeOverload\<close>
  changes the state and answers the caller, and neither advertises nor requests the
  throttle.
\<close>

theorem readvertisement_counterexample:
  "LinkMonitorState.isOverloaded (state startingLinkMonitor) = False \<and>
   LinkMonitorState.isOverloaded (state (setNodeOverload True startingLinkMonitor)) = True \<and>
   effects (setNodeOverload True startingLinkMonitor) = [SetValue] \<and>
   advertiseAdjacenciesThrottledActive (setNodeOverload True startingLinkMonitor) = False"
  by (simp add: setNodeOverload_held example_defs)

text \<open>
  Claim C6, amended.  \<open>setInterfaceOverload\<close>, \<open>setLinkMetric\<close> and
  \<open>setAdjacencyMetric\<close>, when they change the state, request the adjacency throttle and
  advertise nothing themselves (the only effect of the command is the answer to the
  caller); when the throttle fires and the hold timer is not scheduled, the adjacency
  database of every area is written.  \<open>setNodeOverload\<close>, when it changes the state
  (setting or unsetting the bit) and the hold timer is not scheduled, writes the
  adjacency database of every area within the command, before it answers.  While the
  hold timer is scheduled, \<open>setNodeOverload\<close> only changes the state and answers.
\<close>

theorem drain_command_readvertisement:
  "(state (setInterfaceOverload i flag lm) \<noteq> state lm \<longrightarrow>
      advertiseAdjacenciesThrottledActive (setInterfaceOverload i flag lm))
   \<and> (state (setLinkMetric i m lm) \<noteq> state lm \<longrightarrow>
      advertiseAdjacenciesThrottledActive (setLinkMetric i m lm))
   \<and> (state (setAdjacencyMetric i n m lm) \<noteq> state lm \<longrightarrow>
      advertiseAdjacenciesThrottledActive (setAdjacencyMetric i n m lm))
   \<and> effects (setInterfaceOverload i flag lm) = effects lm @ [SetValue]
   \<and> effects (setLinkMetric i m lm) = effects lm @ [SetValue]
   \<and> effects (setAdjacencyMetric i n m lm) = effects lm @ [SetValue]
   \<and> (advertiseAdjacenciesThrottledActive lm \<and> \<not> adjHoldTimerScheduled lm \<longrightarrow>
        step AdvertiseAdjacenciesThrottledFired lm =
          Inr (lm\<lparr>advertiseAdjacenciesThrottledActive := False,
                  effects := effects lm @
                    concat (map (\<lambda>ac. adjAdvertisement lm (fst ac)) (areas (config lm)))\<rparr>))
   \<and> (LinkMonitorState.isOverloaded (state lm) \<noteq> flag \<and> \<not> adjHoldTimerScheduled lm \<longrightarrow>
        effects (setNodeOverload flag lm) =
          effects lm @
          concat (map (\<lambda>ac. adjAdvertisement
                                (lm\<lparr>state := (state lm)\<lparr>LinkMonitorState.isOverloaded := flag\<rparr>\<rparr>)
                                (fst ac))
                    (areas (config lm)))
          @ [SetValue])
   \<and> (adjHoldTimerScheduled lm \<longrightarrow>
        effects (setNodeOverload flag lm) = effects lm @ [SetValue]
        \<and> advertiseAdjacenciesThrottledActive (setNodeOverload flag lm)
            = advertiseAdjacenciesThrottledActive lm)"
  using throttled_command_state(1) [of i flag lm] throttled_command_state(2) [of i m lm]
    throttled_command_state(3) [of i n m lm]
    throttle_fired [of lm] setNodeOverload_running [of lm flag] setNodeOverload_held [of lm flag]
  by (simp add: Let_def throttled_command_effects)

text \<open>On the example: a link metric override arms the throttle and advertises nothing; a
  node overload writes the key of the single area and stores the state before the
  answer; with the hold timer scheduled it only answers.\<close>

theorem drain_command_readvertisement_witness:
  "linkMetricOverrides (state (setLinkMetric ''eth1'' (Some 5) runningLinkMonitor)) ''eth1''
     = Some 5 \<and>
   linkMetricOverrides (state runningLinkMonitor) ''eth1'' = None \<and>
   advertiseAdjacenciesThrottledActive (setLinkMetric ''eth1'' (Some 5) runningLinkMonitor) \<and>
   effects (setLinkMetric ''eth1'' (Some 5) runningLinkMonitor) = [SetValue] \<and>
   LinkMonitorState.isOverloaded (state runningLinkMonitor) = False \<and>
   adjHoldTimerScheduled runningLinkMonitor = False \<and>
   length (effects (setNodeOverload True runningLinkMonitor)) = 3 \<and>
   isAdvertisement (hd (effects (setNodeOverload True runningLinkMonitor))) \<and>
   last (effects (setNodeOverload True runningLinkMonitor)) = SetValue \<and>
   adjHoldTimerScheduled startingLinkMonitor \<and>
   effects (setNodeOverload True startingLinkMonitor) = [SetValue]"
proof -
  have lmo: "linkMetricOverrides (state (setLinkMetric ''eth1'' (Some 5) runningLinkMonitor))
        ''eth1'' = Some 5"
    "linkMetricOverrides (state runningLinkMonitor) ''eth1'' = None"
    by (simp_all add: setLinkMetric_def setValue_def advertiseAdjacenciesThrottled_def
          example_defs)
  then have ne: "state (setLinkMetric ''eth1'' (Some 5) runningLinkMonitor)
                  \<noteq> state runningLinkMonitor"
    by auto
  note r = drain_command_readvertisement
             [of "''eth1''" True runningLinkMonitor "Some 5" "''B''"]
  note s = drain_command_readvertisement
             [of "''eth1''" True startingLinkMonitor "Some 5" "''B''"]
  have o: "LinkMonitorState.isOverloaded (state runningLinkMonitor) = False"
    "adjHoldTimerScheduled runningLinkMonitor = False"
    "effects runningLinkMonitor = []" "adjHoldTimerScheduled startingLinkMonitor"
    "effects startingLinkMonitor = []"
    "areas (config runningLinkMonitor) = [(''0'', exampleAreaConfiguration)]"
    by (simp_all add: example_defs)
  from r ne have "advertiseAdjacenciesThrottledActive
                    (setLinkMetric ''eth1'' (Some 5) runningLinkMonitor)"
    by blast
  moreover from r o have "effects (setLinkMetric ''eth1'' (Some 5) runningLinkMonitor) = [SetValue]"
    by simp
  moreover from r o have "effects (setNodeOverload True runningLinkMonitor) =
      adjAdvertisement
        (runningLinkMonitor\<lparr>state := (state runningLinkMonitor)
                                \<lparr>LinkMonitorState.isOverloaded := True\<rparr>\<rparr>) ''0''
      @ [SetValue]"
    by simp
  then have "length (effects (setNodeOverload True runningLinkMonitor)) = 3"
    "isAdvertisement (hd (effects (setNodeOverload True runningLinkMonitor)))"
    "last (effects (setNodeOverload True runningLinkMonitor)) = SetValue"
    by (simp_all add: adjAdvertisement_def)
  moreover from s o have "effects (setNodeOverload True startingLinkMonitor) = [SetValue]"
    by simp
  ultimately show ?thesis using lmo o by simp
qed

text \<open>
  Claim C7, as stated, fails: \<open>setLinkMetric\<close> changes the state (a new override for
  \<open>eth1\<close>) and its only effect is the answer to the caller; nothing has been sent to the
  config store when the response is returned.
\<close>

theorem persistence_counterexample:
  "linkMetricOverrides (state runningLinkMonitor) ''eth1'' = None \<and>
   linkMetricOverrides (state (setLinkMetric ''eth1'' (Some 5) runningLinkMonitor)) ''eth1''
     = Some 5 \<and>
   effects (setLinkMetric ''eth1'' (Some 5) runningLinkMonitor) = [SetValue]"
  by (simp add: setLinkMetric_def setValue_def advertiseAdjacenciesThrottled_def example_defs)

text \<open>
  Claim C7, amended.  \<open>setInterfaceOverload\<close>, \<open>setLinkMetric\<close> and
  \<open>setAdjacencyMetric\<close> answer the caller without sending anything to the config store;
  the state is stored when the adjacency throttle fires later (hold timer not
  scheduled, at least one area).  \<open>setNodeOverload\<close>, when it changes the state with the
  hold timer not scheduled and at least one area configured, sends the updated state to
  the config store and then answers: the store request is the effect just before the
  answer.  While the hold timer is scheduled it answers without storing.
\<close>

theorem drain_command_persistence:
  "effects (setInterfaceOverload i flag lm) = effects lm @ [SetValue]
   \<and> effects (setLinkMetric i m lm) = effects lm @ [SetValue]
   \<and> effects (setAdjacencyMetric i n m lm) = effects lm @ [SetValue]
   \<and> (LinkMonitorState.isOverloaded (state lm) \<noteq> flag \<and> \<not> adjHoldTimerScheduled lm
        \<and> areas (config lm) \<noteq> [] \<longrightarrow>
        (\<exists>pre. effects (setNodeOverload flag lm) =
           effects lm @ pre
           @ [StoreThriftObj kConfigKey (state (setNodeOverload flag lm)), SetValue]))
   \<and> (adjHoldTimerScheduled lm \<longrightarrow> effects (setNodeOverload flag lm) = effects lm @ [SetValue])
   \<and> (advertiseAdjacenciesThrottledActive lm \<and> \<not> adjHoldTimerScheduled lm
        \<and> areas (config lm) \<noteq> [] \<longrightarrow>
        (\<exists>lm' pre. step AdvertiseAdjacenciesThrottledFired lm = Inr lm' \<and> state lm' = state lm
           \<and> effects lm' = effects lm @ pre @ [StoreThriftObj kConfigKey (state lm)]))"
proof -
  have node: "\<exists>pre. effects (setNodeOverload flag lm) =
           effects lm @ pre
           @ [StoreThriftObj kConfigKey (state (setNodeOverload flag lm)), SetValue]"
    if c: "LinkMonitorState.isOverloaded (state lm) \<noteq> flag" "\<not> adjHoldTimerScheduled lm"
      "areas (config lm) \<noteq> []"
  proof -
    let ?lm1 = "lm\<lparr>state := (state lm)\<lparr>LinkMonitorState.isOverloaded := flag\<rparr>\<rparr>"
    from concat_adjAdvertisement_last [OF c(3), of ?lm1] obtain pre where
      pre: "concat (map (\<lambda>ac. adjAdvertisement ?lm1 (fst ac)) (areas (config lm))) =
              pre @ [StoreThriftObj kConfigKey (state ?lm1)]"
      by blast
    have "state (setNodeOverload flag lm) = state ?lm1"
      using setNodeOverload_running [OF c(1,2)] by (simp add: Let_def)
    moreover have "effects (setNodeOverload flag lm) =
       effects lm @ concat (map (\<lambda>ac. adjAdvertisement ?lm1 (fst ac)) (areas (config lm)))
       @ [SetValue]"
      using setNodeOverload_running [OF c(1,2)] by (simp add: Let_def)
    ultimately show ?thesis using pre by simp
  qed
  have fired: "\<exists>lm' pre. step AdvertiseAdjacenciesThrottledFired lm = Inr lm'
           \<and> state lm' = state lm
           \<and> effects lm' = effects lm @ pre @ [StoreThriftObj kConfigKey (state lm)]"
    if c: "advertiseAdjacenciesThrottledActive lm" "\<not> adjHoldTimerScheduled lm"
      "areas (config lm) \<noteq> []"
  proof -
    from concat_adjAdvertisement_last [OF c(3), of lm] obtain pre where
      "concat (map (\<lambda>ac. adjAdvertisement lm (fst ac)) (areas (config lm))) =
              pre @ [StoreThriftObj kConfigKey (state lm)]"
      by blast
    with throttle_fired [OF c(1,2)] show ?thesis by simp
  qed
  show ?thesis
    using node fired setNodeOverload_held [of lm flag]
    by (simp add: throttled_command_effects)
qed

text \<open>On the example: the effects of the three cases.\<close>

theorem drain_command_persistence_witness:
  "LinkMonitorState.isOverloaded (state runningLinkMonitor) = False \<and>
   adjHoldTimerScheduled runningLinkMonitor = False \<and>
   areas (config runningLinkMonitor) \<noteq> [] \<and>
   effects (setNodeOverload True runningLinkMonitor) =
     [PersistKey ''0'' ''adj:A'' (buildAdjacencyDatabase (setNodeOverload True runningLinkMonitor) ''0''),
      StoreThriftObj kConfigKey (state (setNodeOverload True runningLinkMonitor)), SetValue] \<and>
   effects (setLinkMetric ''eth1'' (Some 5) runningLinkMonitor) = [SetValue] \<and>
   advertiseAdjacenciesThrottledActive (setLinkMetric ''eth1'' (Some 5) runningLinkMonitor) \<and>
   \<not> isl (step AdvertiseAdjacenciesThrottledFired
            (setLinkMetric ''eth1'' (Some 5) runningLinkMonitor)) \<and>
   last (effects (projr (step AdvertiseAdjacenciesThrottledFired
                           (setLinkMetric ''eth1'' (Some 5) runningLinkMonitor))))
     = StoreThriftObj kConfigKey (state (setLinkMetric ''eth1'' (Some 5) runningLinkMonitor)) \<and>
   adjHoldTimerScheduled startingLinkMonitor \<and>
   effects (setNodeOverload True startingLinkMonitor) = [SetValue]"
proof -
  let ?cmd = "setLinkMetric ''eth1'' (Some 5) runningLinkMonitor"
  note r = drain_command_persistence [of "''eth1''" True runningLinkMonitor "Some 5" "''B''"]
  note c = drain_command_persistence [of "''eth1''" True ?cmd "Some 5" "''B''"]
  note s = drain_command_persistence [of "''eth1''" True startingLinkMonitor "Some 5" "''B''"]
  have o: "LinkMonitorState.isOverloaded (state runningLinkMonitor) = False"
    "adjHoldTimerScheduled runningLinkMonitor = False"
    "effects runningLinkMonitor = []" "adjHoldTimerScheduled startingLinkMonitor"
    "effects startingLinkMonitor = []"
    "areas (config runningLinkMonitor) \<noteq> []"
    by (simp_all add: example_defs)
  have cmd: "advertiseAdjacenciesThrottledActive ?cmd" "\<not> adjHoldTimerScheduled ?cmd"
    "areas (config ?cmd) \<noteq> []"
    by (simp_all add: setLinkMetric_def setValue_def advertiseAdjacenciesThrottled_def
          example_defs)
  from c cmd obtain lm' pre where
    "step AdvertiseAdjacenciesThrottledFired ?cmd = Inr lm'"
    "effects lm' = effects ?cmd @ pre @ [StoreThriftObj kConfigKey (state ?cmd)]"
    by blast
  then have fired: "\<not> isl (step AdvertiseAdjacenciesThrottledFired ?cmd)"
    "last (effects (projr (step AdvertiseAdjacenciesThrottledFired ?cmd)))
       = StoreThriftObj kConfigKey (state ?cmd)"
    by simp_all
  have node: "effects (setNodeOverload True runningLinkMonitor) =
     [PersistKey ''0'' ''adj:A'' (buildAdjacencyDatabase (setNodeOverload True runningLinkMonitor) ''0''),
      StoreThriftObj kConfigKey (state (setNodeOverload True runningLinkMonitor)), SetValue]"
    by (simp add: setNodeOverload_running Let_def adjAdvertisement_def kAdjDbMarker_def
          buildAdjacencyDatabase_def example_defs)
  from r o have "effects ?cmd = [SetValue]" by simp
  moreover from s o have "effects (setNodeOverload True startingLinkMonitor) = [SetValue]"
    by simp
  ultimately show ?thesis using o cmd(1) fired node by simp
qed

end
